theory Spec2Isabelle
  imports Complex_Main "HOL-Library.Multiset"
begin

section \<open>Data model\<close>

text \<open>
  The client is TypeScript; every numeric field has the type \<open>number\<close>, an IEEE 754
  double.  Weights, repetition counts and RPE values are user-entered
  (\<open>Number(e.target.value)\<close>) or come from DECIMAL columns; a field of type \<open>rat\<close> holds
  the rational value of the (finite) double.  Comparisons of doubles are exact; sums and
  products are rounded, see the section on the arithmetic of numbers below.  Set numbers,
  target set counts and order positions are INTEGER columns or are computed from array
  indices, so they are modelled as integers.  Strings are \<open>string\<close>, a list of 8-bit
  characters.  An optional field (\<open>id?: string\<close>, \<open>string | null\<close>) is an \<open>option\<close>.
\<close>

text \<open>\<open>interface SetData\<close> of \<open>src/app/workout/[id]/page.tsx\<close>; \<open>sid\<close> is its field \<open>id\<close>.\<close>

record SetData =
  sid :: "string option"
  set_number :: int
  weight :: rat
  reps :: rat
  rpe :: "rat option"
  logged :: bool

text \<open>The anonymous object type of \<open>ExerciseData.previousBest\<close>.\<close>

record PreviousBest =
  best_weight :: rat
  best_reps :: rat

text \<open>\<open>interface ExerciseData\<close> of the workout page.\<close>

record ExerciseData =
  exercise_id :: string
  exercise_name :: string
  sets :: "SetData list"
  previousBest :: "PreviousBest option"
  expanded :: bool

text \<open>\<open>interface Exercise\<close> of \<open>src/lib/api.ts\<close>.\<close>

record Exercise =
  ex_id :: string
  ex_name :: string
  muscle_group :: string
  category :: string

text \<open>\<open>interface RoutineExercise\<close> and \<open>interface Routine\<close> of \<open>src/lib/api.ts\<close>.\<close>

record RoutineExercise =
  re_id :: string
  re_exercise_id :: string
  re_exercise_name :: string
  re_order :: int
  target_sets :: int
  target_reps_min :: int
  target_reps_max :: int

record Routine =
  r_id :: string
  r_name :: string
  schedule_day_index :: int
  exercises :: "RoutineExercise list"

text \<open>
  The element type of \<open>workout_sets\<close> in the result of \<open>getWorkout\<close>.  The page reads the
  joined exercise as \<open>set.exercises?.name\<close>, so the join may be absent.
\<close>

record WorkoutSet =
  ws_id :: string
  ws_exercise_id :: string
  ws_set_number :: int
  ws_weight :: rat
  ws_reps :: rat
  ws_rpe :: "rat option"
  ws_exercises :: "Exercise option"

text \<open>The result type of \<open>getWorkout\<close>.\<close>

record WorkoutData =
  w_id :: string
  start_time :: string
  end_time :: "string option"
  status :: string
  routine_name :: "string option"
  workout_sets :: "WorkoutSet list"

text \<open>The element type of the result of \<open>getExerciseHistory\<close>.\<close>

record HistoryEntry =
  h_weight :: rat
  h_reps :: rat
  h_set_number :: int
  h_start_time :: string

text \<open>\<open>interface SetLog\<close>, the body of the log-set request.\<close>

record SetLog =
  sl_exercise_id :: string
  sl_set_number :: int
  sl_weight :: rat
  sl_reps :: rat

text \<open>\<open>interface RoutineExerciseForm\<close> of the routine editor and the entries of \<open>RoutineInput\<close>.\<close>

record RoutineExerciseForm =
  f_exercise_id :: string
  f_exercise_name :: string
  f_order :: int
  f_target_sets :: int
  f_target_reps_min :: int
  f_target_reps_max :: int

record RoutineInputExercise =
  in_exercise_id :: string
  in_order :: int
  in_target_sets :: int
  in_target_reps_min :: int
  in_target_reps_max :: int

record RoutineInput =
  in_name :: string
  in_schedule_day_index :: int
  in_exercises :: "RoutineInputExercise list"

text \<open>\<open>apiRequest\<close> throws \<open>new Error(detail)\<close> when the response is not ok.\<close>

datatype api_error = ApiError string

section \<open>The insertion-ordered map of \<open>loadWorkout\<close>\<close>

text \<open>
  \<open>new Map<string, ExerciseData>()\<close> keeps its keys in insertion order; \<open>set\<close> on a key
  that is present replaces the value where the key stands, and appends otherwise.
\<close>

type_synonym exerciseMap = "(string \<times> ExerciseData) list"

definition mapGet :: "exerciseMap \<Rightarrow> string \<Rightarrow> ExerciseData option" where
  "mapGet m k = map_of m k"

primrec mapSet :: "exerciseMap \<Rightarrow> string \<Rightarrow> ExerciseData \<Rightarrow> exerciseMap" where
  "mapSet [] k v = [(k, v)]"
| "mapSet (p # ps) k v = (if fst p = k then (k, v) # ps else p # mapSet ps k v)"

definition mapValues :: "exerciseMap \<Rightarrow> ExerciseData list" where
  "mapValues m = map snd m"

section \<open>Building the reconciliation view: \<open>loadWorkout\<close>\<close>

text \<open>\<open>Array.prototype.findIndex\<close>: the first index whose element satisfies the predicate, or -1.\<close>

fun findIndexFrom :: "('a \<Rightarrow> bool) \<Rightarrow> 'a list \<Rightarrow> int \<Rightarrow> int" where
  "findIndexFrom P [] i = - 1"
| "findIndexFrom P (x # xs) i = (if P x then i else findIndexFrom P xs (i + 1))"

definition findIndex :: "('a \<Rightarrow> bool) \<Rightarrow> 'a list \<Rightarrow> int" where
  "findIndex P xs = findIndexFrom P xs 0"

text \<open>
  \<open>Array.from({ length: ex.target_sets }, (_, i) => ({ set_number: i + 1, weight: 0, reps: 0,
  logged: false }))\<close>.  A length below 1 gives the empty array.
\<close>

definition placeholderSets :: "int \<Rightarrow> SetData list" where
  "placeholderSets n =
     map (\<lambda>i. \<lparr>sid = None, set_number = int i + 1, weight = 0, reps = 0, rpe = None,
               logged = False\<rparr>) [0 ..< nat n]"

text \<open>The loop \<open>for (const ex of routine.exercises) exerciseMap.set(ex.exercise_id, {...})\<close>.\<close>

fun seedRoutine :: "exerciseMap \<Rightarrow> RoutineExercise list \<Rightarrow> exerciseMap" where
  "seedRoutine m [] = m"
| "seedRoutine m (ex # exs) =
     seedRoutine
       (mapSet m (re_exercise_id ex)
          \<lparr>exercise_id = re_exercise_id ex, exercise_name = re_exercise_name ex,
           sets = placeholderSets (target_sets ex), previousBest = None, expanded = False\<rparr>)
       exs"

text \<open>
  The seeding step as a whole.  \<open>if (data.routine_name)\<close> is false for \<open>null\<close> and for the
  empty string; \<open>listRoutines\<close> is only called inside, and its failure leaves \<open>loadWorkout\<close>
  through the outer \<open>catch\<close>.  The routine is found by its name.
\<close>

definition seedMap :: "WorkoutData \<Rightarrow> (api_error + Routine list) \<Rightarrow> api_error + exerciseMap" where
  "seedMap data listRoutines =
     (case routine_name data of
        None \<Rightarrow> Inr []
      | Some n \<Rightarrow>
          if n = [] then Inr []
          else (case listRoutines of
                  Inl e \<Rightarrow> Inl e
                | Inr routines \<Rightarrow>
                    (case find (\<lambda>r. r_name r = n) routines of
                       None \<Rightarrow> Inr []
                     | Some routine \<Rightarrow> Inr (seedRoutine [] (exercises routine)))))"

text \<open>The set entry written for a persisted set, in both branches of "Update or add set".\<close>

definition loggedEntry :: "WorkoutSet \<Rightarrow> SetData" where
  "loggedEntry s =
     \<lparr>sid = Some (ws_id s), set_number = ws_set_number s, weight = ws_weight s,
      reps = ws_reps s, rpe = ws_rpe s, logged = True\<rparr>"

text \<open>\<open>set.exercises?.name || "Unknown"\<close>.\<close>

definition joinedName :: "WorkoutSet \<Rightarrow> string" where
  "joinedName s =
     (case ws_exercises s of
        None \<Rightarrow> ''Unknown''
      | Some e \<Rightarrow> if ex_name e = [] then ''Unknown'' else ex_name e)"

text \<open>
  One iteration of \<open>for (const set of data.workout_sets || [])\<close>.  The object fetched from the
  map is mutated in place, so the change is written back under the same key.
\<close>

definition overlaySet :: "exerciseMap \<Rightarrow> WorkoutSet \<Rightarrow> exerciseMap" where
  "overlaySet m s =
     (let exerciseId = ws_exercise_id s;
          (m1, exercise) =
            (case mapGet m exerciseId of
               Some e \<Rightarrow> (m, e)
             | None \<Rightarrow>
                 (let e = \<lparr>exercise_id = exerciseId, exercise_name = joinedName s, sets = [],
                           previousBest = None, expanded = False\<rparr>
                  in (mapSet m exerciseId e, e)));
          existingSetIndex = findIndex (\<lambda>x. set_number x = ws_set_number s) (sets exercise)
      in if existingSetIndex \<ge> 0
         then mapSet m1 exerciseId
                (exercise\<lparr>sets := (sets exercise)[nat existingSetIndex := loggedEntry s]\<rparr>)
         else mapSet m1 exerciseId (exercise\<lparr>sets := sets exercise @ [loggedEntry s]\<rparr>))"

fun overlaySets :: "exerciseMap \<Rightarrow> WorkoutSet list \<Rightarrow> exerciseMap" where
  "overlaySets m [] = m"
| "overlaySets m (s # ss) = overlaySets (overlaySet m s) ss"

text \<open>
  The loop commented "Sort sets and fetch previous bests":
  \<open>for (const ex of exerciseArray) { ex.sets.sort((a, b) => a.set_number - b.set_number);
  if (!ex.sets.every(s => s.logged)) { ex.expanded = true; break; } }\<close>.
  \<open>Array.prototype.sort\<close> is stable, as is \<open>sort_key\<close>.  The \<open>break\<close> leaves the loop, so
  the exercises behind the expanded one are not visited.
\<close>

fun sortAndExpand :: "ExerciseData list \<Rightarrow> ExerciseData list" where
  "sortAndExpand [] = []"
| "sortAndExpand (ex # rest) =
     (let ex1 = ex\<lparr>sets := sort_key set_number (sets ex)\<rparr>
      in if \<not> list_all logged (sets ex1) then ex1\<lparr>expanded := True\<rparr> # rest
         else ex1 # sortAndExpand rest)"

text \<open>
  \<open>history.reduce((max, s) => s.weight > max.weight ? s : max, history[0])\<close>, guarded by
  \<open>history.length > 0\<close>.
\<close>

definition bestOf :: "HistoryEntry list \<Rightarrow> PreviousBest option" where
  "bestOf history =
     (case history of
        [] \<Rightarrow> None
      | h0 # _ \<Rightarrow>
          (let best = foldl (\<lambda>mx s. if h_weight s > h_weight mx then s else mx) h0 history
           in Some \<lparr>best_weight = h_weight best, best_reps = h_reps best\<rparr>))"

text \<open>
  One iteration of the loop "Fetch previous bests for each exercise".  A rejected
  \<open>getExerciseHistory\<close> is caught by the inner \<open>try\<close> and the exercise is left as it is.
\<close>

definition fetchPreviousBest ::
  "(string \<Rightarrow> api_error + HistoryEntry list) \<Rightarrow> ExerciseData \<Rightarrow> ExerciseData" where
  "fetchPreviousBest getExerciseHistory ex =
     (case getExerciseHistory (exercise_id ex) of
        Inl _ \<Rightarrow> ex
      | Inr history \<Rightarrow>
          (case bestOf history of
             None \<Rightarrow> ex
           | Some b \<Rightarrow> ex\<lparr>previousBest := Some b\<rparr>))"

text \<open>
  \<open>loadWorkout\<close>.  The three API reads are parameters: the outcome of \<open>getWorkout\<close>, the
  outcome of \<open>listRoutines\<close> and, for each exercise id, the outcome of
  \<open>getExerciseHistory\<close>.  The result is the final value of the state \<open>exercises\<close>; \<open>Inl\<close> is the
  outer \<open>catch\<close>, which logs the error and redirects to the dashboard.
\<close>

definition loadWorkout ::
  "(api_error + WorkoutData) \<Rightarrow> (api_error + Routine list) \<Rightarrow>
   (string \<Rightarrow> api_error + HistoryEntry list) \<Rightarrow> api_error + ExerciseData list" where
  "loadWorkout getWorkout listRoutines getExerciseHistory =
     (case getWorkout of
        Inl e \<Rightarrow> Inl e
      | Inr data \<Rightarrow>
          (case seedMap data listRoutines of
             Inl e \<Rightarrow> Inl e
           | Inr m0 \<Rightarrow>
               (let exerciseArray = sortAndExpand (mapValues (overlaySets m0 (workout_sets data)))
                in Inr (map (fetchPreviousBest getExerciseHistory) exerciseArray))))"

section \<open>Operations on the view\<close>

definition toggleExercise :: "string \<Rightarrow> ExerciseData list \<Rightarrow> ExerciseData list" where
  "toggleExercise exerciseId exs =
     map (\<lambda>ex. if exercise_id ex = exerciseId then ex\<lparr>expanded := \<not> expanded ex\<rparr> else ex) exs"

text \<open>The parameter \<open>field: "weight" | "reps"\<close> of \<open>updateSet\<close>.\<close>

datatype set_field = Weight | Reps

definition updateSet ::
  "string \<Rightarrow> int \<Rightarrow> set_field \<Rightarrow> rat \<Rightarrow> ExerciseData list \<Rightarrow> ExerciseData list" where
  "updateSet exerciseId setNumber field v exs =
     map (\<lambda>ex. if exercise_id ex \<noteq> exerciseId then ex
               else ex\<lparr>sets :=
                      map (\<lambda>s. if set_number s = setNumber
                                then (case field of Weight \<Rightarrow> s\<lparr>weight := v\<rparr>
                                                  | Reps \<Rightarrow> s\<lparr>reps := v\<rparr>)
                                else s) (sets ex)\<rparr>) exs"

text \<open>
  \<open>handleLogSet\<close>.  The result is the list of log-set requests issued and the new value of
  \<open>exercises\<close>.  A rejected \<open>logSet\<close> is caught and leaves the state as it is.
\<close>

definition handleLogSet ::
  "string \<Rightarrow> (string \<Rightarrow> SetLog \<Rightarrow> api_error + unit) \<Rightarrow> string \<Rightarrow> SetData \<Rightarrow>
   ExerciseData list \<Rightarrow> (string \<times> SetLog) list \<times> ExerciseData list" where
  "handleLogSet workoutId logSet exerciseId st exs =
     (if weight st \<le> 0 \<or> reps st \<le> 0 then ([], exs)
      else
        (let body = \<lparr>sl_exercise_id = exerciseId, sl_set_number = set_number st,
                     sl_weight = weight st, sl_reps = reps st\<rparr>
         in case logSet workoutId body of
              Inl _ \<Rightarrow> ([(workoutId, body)], exs)
            | Inr _ \<Rightarrow>
                ([(workoutId, body)],
                 map (\<lambda>ex. if exercise_id ex \<noteq> exerciseId then ex
                           else ex\<lparr>sets :=
                                  map (\<lambda>s. if set_number s = set_number st
                                            then s\<lparr>logged := True\<rparr> else s) (sets ex)\<rparr>) exs)))"

text \<open>\<open>Math.max(0, ...ex.sets.map(s => s.set_number))\<close>.\<close>

definition maxSetNumber :: "SetData list \<Rightarrow> int" where
  "maxSetNumber ss = foldl max 0 (map set_number ss)"

text \<open>
  The set appended by \<open>addSetToExercise\<close>.  \<open>ex.sets[ex.sets.length - 1]?.weight || 0\<close> is the
  weight of the last array entry, and 0 when the array is empty.
\<close>

definition nextSet :: "SetData list \<Rightarrow> SetData" where
  "nextSet ss =
     \<lparr>sid = None, set_number = maxSetNumber ss + 1,
      weight = (case rev ss of [] \<Rightarrow> 0 | l # _ \<Rightarrow> weight l),
      reps = (case rev ss of [] \<Rightarrow> 0 | l # _ \<Rightarrow> reps l),
      rpe = None, logged = False\<rparr>"

definition addSetToExercise :: "string \<Rightarrow> ExerciseData list \<Rightarrow> ExerciseData list" where
  "addSetToExercise exerciseId exs =
     map (\<lambda>ex. if exercise_id ex \<noteq> exerciseId then ex
               else ex\<lparr>sets := sets ex @ [nextSet (sets ex)]\<rparr>) exs"

text \<open>
  \<open>handleSearch\<close> of the workout page; the result is the new value of \<open>searchResults\<close>.
  Exercises already in the view are filtered out.
\<close>

definition handleSearch ::
  "string \<Rightarrow> (string \<Rightarrow> api_error + Exercise list) \<Rightarrow> ExerciseData list \<Rightarrow> Exercise list" where
  "handleSearch query searchExercises exs =
     (if length query < 2 then []
      else (case searchExercises query of
              Inl _ \<Rightarrow> []
            | Inr results \<Rightarrow>
                (let existingIds = set (map exercise_id exs)
                 in filter (\<lambda>r. ex_id r \<notin> existingIds) results)))"

definition addExercise :: "Exercise \<Rightarrow> ExerciseData list \<Rightarrow> ExerciseData list" where
  "addExercise exercise exs =
     exs @ [\<lparr>exercise_id = ex_id exercise, exercise_name = ex_name exercise,
             sets = [\<lparr>sid = None, set_number = 1, weight = 0, reps = 0, rpe = None,
                      logged = False\<rparr>],
             previousBest = None, expanded = True\<rparr>]"

section \<open>The arithmetic of numbers\<close>

text \<open>
  \<open>+\<close> and \<open>*\<close> on numbers are the IEEE 754 binary64 operations: the exact result,
  rounded to the nearest double, ties to the even significand.  A double is an integer
  multiple of a power of two \<open>2 ^ e\<close> with \<open>-1074 \<le> e\<close> and a significand below \<open>2 ^ 53\<close>;
  the doubles next to a value \<open>x\<close> are the multiples of \<open>2 ^ e\<close> for
  \<open>e = max (\<lfloor>log\<^sub>2 \<bar>x\<bar>\<rfloor> - 52) (-1074)\<close>.  Results of magnitude \<open>2 ^ 1024\<close> and more, which
  are \<open>Infinity\<close> in the code, are not modelled.
\<close>

text \<open>The number of binary digits of a positive integer.\<close>

function bitLength :: "int \<Rightarrow> nat" where
  "bitLength n = (if n \<le> 0 then 0 else Suc (bitLength (n div 2)))"
  by auto
termination
  by (relation "measure nat") auto

declare bitLength.simps [simp del]

text \<open>\<open>\<lfloor>log\<^sub>2 a\<rfloor>\<close> for a positive rational \<open>a\<close>.\<close>

definition ilog2 :: "rat \<Rightarrow> int" where
  "ilog2 a =
     (if 1 \<le> a then int (bitLength \<lfloor>a\<rfloor>) - 1
      else - int (bitLength (\<lceil>1 / a\<rceil> - 1)))"

text \<open>The nearest integer, the even one of two nearest.\<close>

definition roundHalfEven :: "rat \<Rightarrow> int" where
  "roundHalfEven y =
     (let f = \<lfloor>y\<rfloor>; r = y - of_int f
      in if r < 1 / 2 then f else if 1 / 2 < r then f + 1 else if even f then f else f + 1)"

text \<open>The double nearest to a rational.\<close>

definition roundDouble :: "rat \<Rightarrow> rat" where
  "roundDouble x =
     (if x = 0 then 0
      else (let e = max (ilog2 \<bar>x\<bar> - 52) (- 1074);
                n = roundHalfEven (\<bar>x\<bar> / 2 powi e)
            in sgn x * of_int n * 2 powi e))"

text \<open>\<open>x + y\<close> and \<open>x * y\<close> on numbers.\<close>

definition jsAdd :: "rat \<Rightarrow> rat \<Rightarrow> rat" where
  "jsAdd x y = roundDouble (x + y)"

definition jsMul :: "rat \<Rightarrow> rat \<Rightarrow> rat" where
  "jsMul x y = roundDouble (x * y)"

section \<open>Displayed totals\<close>

text \<open>
  \<open>totalSetsLogged\<close> and \<open>totalVolume\<close> of the workout page (the finish dialog).  The count
  of logged sets is an integer far below \<open>2 ^ 53\<close>, where the addition of doubles is exact.
\<close>

definition totalSetsLogged :: "ExerciseData list \<Rightarrow> nat" where
  "totalSetsLogged exs = foldl (\<lambda>sum ex. sum + length (filter logged (sets ex))) 0 exs"

definition totalVolume :: "ExerciseData list \<Rightarrow> rat" where
  "totalVolume exs =
     foldl (\<lambda>sum ex. jsAdd sum
                        (foldl (\<lambda>setSum s. jsAdd setSum (jsMul (weight s) (reps s))) 0
                           (filter logged (sets ex)))) 0 exs"

text \<open>\<open>totalVolume\<close> of the workout detail page, over \<open>workout.workout_sets\<close>.\<close>

definition totalVolume_detail :: "WorkoutSet list \<Rightarrow> rat" where
  "totalVolume_detail wsets =
     foldl (\<lambda>sum s. jsAdd sum (jsMul (ws_weight s) (ws_reps s))) 0 wsets"

text \<open>The completion count shown per exercise: logged sets and all sets.\<close>

definition completionCount :: "ExerciseData \<Rightarrow> nat \<times> nat" where
  "completionCount ex = (length (filter logged (sets ex)), length (sets ex))"

section \<open>Saving a routine: \<open>handleSave\<close>\<close>

text \<open>
  \<open>String.prototype.trim\<close> strips white space and line terminators.  Among the characters
  up to U+00FF, which \<open>char\<close> holds, these are tab, line feed, vertical tab, form feed,
  carriage return, space and no-break space (U+00A0).
\<close>

definition isWhiteSpace :: "char \<Rightarrow> bool" where
  "isWhiteSpace c =
     (c \<in> set [CHR 0x09, CHR 0x0A, CHR 0x0B, CHR 0x0C, CHR 0x0D, CHR 0x20, CHR 0xA0])"

definition trim :: "string \<Rightarrow> string" where
  "trim s = rev (dropWhile isWhiteSpace (rev (dropWhile isWhiteSpace s)))"

text \<open>The form state of the routine editor that \<open>handleSave\<close> reads.\<close>

record RoutineForm =
  formName :: string
  formDay :: int
  formExercises :: "RoutineExerciseForm list"
  editingRoutine :: "Routine option"

text \<open>The request \<open>handleSave\<close> issues: \<open>createRoutine(data)\<close> or \<open>updateRoutine(id, data)\<close>.\<close>

datatype routine_request = CreateRoutine RoutineInput | UpdateRoutine string RoutineInput

text \<open>\<open>formExercises.map((e, i) => ({ exercise_id: e.exercise_id, order: i, ... }))\<close>.\<close>

definition renumber :: "RoutineExerciseForm list \<Rightarrow> RoutineInputExercise list" where
  "renumber es =
     map (\<lambda>(i, e). \<lparr>in_exercise_id = f_exercise_id e, in_order = int i,
                     in_target_sets = f_target_sets e,
                     in_target_reps_min = f_target_reps_min e,
                     in_target_reps_max = f_target_reps_max e\<rparr>) (enumerate 0 es)"

text \<open>\<open>handleSave\<close>: nothing is sent when the trimmed name is empty.\<close>

definition handleSave :: "RoutineForm \<Rightarrow> routine_request option" where
  "handleSave f =
     (if trim (formName f) = [] then None
      else
        (let data = \<lparr>in_name = formName f, in_schedule_day_index = formDay f,
                     in_exercises = renumber (formExercises f)\<rparr>
         in case editingRoutine f of
              Some r \<Rightarrow> Some (UpdateRoutine (r_id r) data)
            | None \<Rightarrow> Some (CreateRoutine data)))"

section \<open>Auxiliary notions for the statements and proofs\<close>

text \<open>
  The two ways \<open>overlaySet\<close> obtains the exercise it writes to, and what it does to the set
  list of that exercise, named so that the loop body can be reasoned about in one piece
  (lemma \<open>overlaySet_eq\<close> below).
\<close>

definition freshExercise :: "WorkoutSet \<Rightarrow> ExerciseData" where
  "freshExercise s =
     \<lparr>exercise_id = ws_exercise_id s, exercise_name = joinedName s, sets = [],
      previousBest = None, expanded = False\<rparr>"

definition upsertSet :: "SetData list \<Rightarrow> WorkoutSet \<Rightarrow> SetData list" where
  "upsertSet ss s =
     (if \<exists>x\<in>set ss. set_number x = ws_set_number s
      then ss[length (takeWhile (\<lambda>x. set_number x \<noteq> ws_set_number s) ss) := loggedEntry s]
      else ss @ [loggedEntry s])"

definition entryFor :: "exerciseMap \<Rightarrow> WorkoutSet \<Rightarrow> ExerciseData" where
  "entryFor m s = (case map_of m (ws_exercise_id s) of Some e \<Rightarrow> e | None \<Rightarrow> freshExercise s)"

text \<open>An entry of the map before the expansion loop and the history reads have touched it.\<close>

definition untouched :: "ExerciseData \<Rightarrow> bool" where
  "untouched e \<longleftrightarrow> \<not> expanded e \<and> previousBest e = None"

text \<open>
  The invariant of the view: no exercise id occurs twice, and within an exercise no set
  number occurs twice.  \<open>mapInv\<close> is the same for the map under construction, whose keys
  are the exercise ids of its values.
\<close>

definition viewInv :: "ExerciseData list \<Rightarrow> bool" where
  "viewInv exs \<longleftrightarrow>
     distinct (map exercise_id exs) \<and> (\<forall>e\<in>set exs. distinct (map set_number (sets e)))"

definition mapInv :: "exerciseMap \<Rightarrow> bool" where
  "mapInv m \<longleftrightarrow>
     distinct (map fst m) \<and>
     (\<forall>p\<in>set m. exercise_id (snd p) = fst p \<and> distinct (map set_number (sets (snd p))))"



text \<open>
  The key under which the store is meant to hold at most one set of a session, and the
  maps all of whose logged entries carry a key from a set \<open>K\<close>.
\<close>

definition setKey :: "WorkoutSet \<Rightarrow> string \<times> int" where
  "setKey s = (ws_exercise_id s, ws_set_number s)"


section \<open>The scenario of the reconciliation example\<close>

text \<open>
  A session started from a routine with exercise A (3 target sets, none logged) and exercise B
  (2 target sets, both logged), and the view expected for it.
\<close>

definition scenarioRoutine :: Routine where
  "scenarioRoutine =
     \<lparr>r_id = ''r1'', r_name = ''Push Day'', schedule_day_index = 1,
      exercises =
        [\<lparr>re_id = ''re1'', re_exercise_id = ''A'', re_exercise_name = ''Squat'', re_order = 0,
          target_sets = 3, target_reps_min = 8, target_reps_max = 12\<rparr>,
         \<lparr>re_id = ''re2'', re_exercise_id = ''B'', re_exercise_name = ''Bench Press'',
          re_order = 1, target_sets = 2, target_reps_min = 8, target_reps_max = 12\<rparr>]\<rparr>"

definition scenarioWorkout :: WorkoutData where
  "scenarioWorkout =
     \<lparr>w_id = ''w1'', start_time = ''2024-01-01T10:00:00Z'', end_time = None,
      status = ''in_progress'', routine_name = Some ''Push Day'',
      workout_sets =
        [\<lparr>ws_id = ''s1'', ws_exercise_id = ''B'', ws_set_number = 1, ws_weight = 100,
          ws_reps = 10, ws_rpe = None, ws_exercises = None\<rparr>,
         \<lparr>ws_id = ''s2'', ws_exercise_id = ''B'', ws_set_number = 2, ws_weight = 80,
          ws_reps = 12, ws_rpe = None, ws_exercises = None\<rparr>]\<rparr>"

definition scenarioView :: "ExerciseData list" where
  "scenarioView =
     [\<lparr>exercise_id = ''A'', exercise_name = ''Squat'',
       sets = [\<lparr>sid = None, set_number = 1, weight = 0, reps = 0, rpe = None, logged = False\<rparr>,
               \<lparr>sid = None, set_number = 2, weight = 0, reps = 0, rpe = None, logged = False\<rparr>,
               \<lparr>sid = None, set_number = 3, weight = 0, reps = 0, rpe = None, logged = False\<rparr>],
       previousBest = None, expanded = True\<rparr>,
      \<lparr>exercise_id = ''B'', exercise_name = ''Bench Press'',
       sets = [\<lparr>sid = Some ''s1'', set_number = 1, weight = 100, reps = 10, rpe = None,
                logged = True\<rparr>,
               \<lparr>sid = Some ''s2'', set_number = 2, weight = 80, reps = 12, rpe = None,
                logged = True\<rparr>],
       previousBest = None, expanded = False\<rparr>]"

section \<open>Example inputs\<close>

text \<open>
  A history with a tie at the maximum weight, two outcomes of the history reads (every read
  succeeds; the read for exercise A fails), and a form state of the routine editor whose
  entries carry order values that do not match their positions.
\<close>

definition exampleHistory :: "HistoryEntry list" where
  "exampleHistory =
     [\<lparr>h_weight = 100, h_reps = 5, h_set_number = 1, h_start_time = ''2023-12-01T10:00:00Z''\<rparr>,
      \<lparr>h_weight = 120, h_reps = 3, h_set_number = 2, h_start_time = ''2023-12-01T10:00:00Z''\<rparr>,
      \<lparr>h_weight = 120, h_reps = 8, h_set_number = 1, h_start_time = ''2023-12-08T10:00:00Z''\<rparr>,
      \<lparr>h_weight = 90, h_reps = 10, h_set_number = 2, h_start_time = ''2023-12-08T10:00:00Z''\<rparr>]"

definition historyOk :: "string \<Rightarrow> api_error + HistoryEntry list" where
  "historyOk k = Inr exampleHistory"

definition historyFailA :: "string \<Rightarrow> api_error + HistoryEntry list" where
  "historyFailA k = (if k = ''A'' then Inl (ApiError ''HTTP 500'') else Inr exampleHistory)"

definition exampleForm :: RoutineForm where
  "exampleForm =
     \<lparr>formName = ''Push Day'', formDay = 1,
      formExercises =
        [\<lparr>f_exercise_id = ''B'', f_exercise_name = ''Bench Press'', f_order = 1,
          f_target_sets = 2, f_target_reps_min = 8, f_target_reps_max = 12\<rparr>,
         \<lparr>f_exercise_id = ''A'', f_exercise_name = ''Squat'', f_order = 0,
          f_target_sets = 3, f_target_reps_min = 8, f_target_reps_max = 12\<rparr>],
      editingRoutine = Some scenarioRoutine\<rparr>"


text \<open>
  A second session: routine exercises A and B with one target set each, nothing logged for
  A, and for B the persisted sets 3 and 2, delivered in this order; and the view
  \<open>loadWorkout\<close> builds for it.
\<close>

definition scenario2Routine :: Routine where
  "scenario2Routine =
     \<lparr>r_id = ''r2'', r_name = ''Pull Day'', schedule_day_index = 2,
      exercises =
        [\<lparr>re_id = ''re3'', re_exercise_id = ''A'', re_exercise_name = ''Deadlift'', re_order = 0,
          target_sets = 1, target_reps_min = 5, target_reps_max = 5\<rparr>,
         \<lparr>re_id = ''re4'', re_exercise_id = ''B'', re_exercise_name = ''Barbell Row'',
          re_order = 1, target_sets = 1, target_reps_min = 8, target_reps_max = 12\<rparr>]\<rparr>"

definition scenario2Workout :: WorkoutData where
  "scenario2Workout =
     \<lparr>w_id = ''w2'', start_time = ''2024-01-02T10:00:00Z'', end_time = None,
      status = ''in_progress'', routine_name = Some ''Pull Day'',
      workout_sets =
        [\<lparr>ws_id = ''s3'', ws_exercise_id = ''B'', ws_set_number = 3, ws_weight = 60,
          ws_reps = 8, ws_rpe = None, ws_exercises = None\<rparr>,
         \<lparr>ws_id = ''s4'', ws_exercise_id = ''B'', ws_set_number = 2, ws_weight = 60,
          ws_reps = 10, ws_rpe = None, ws_exercises = None\<rparr>]\<rparr>"

definition scenario2View :: "ExerciseData list" where
  "scenario2View =
     [\<lparr>exercise_id = ''A'', exercise_name = ''Deadlift'',
       sets = [\<lparr>sid = None, set_number = 1, weight = 0, reps = 0, rpe = None, logged = False\<rparr>],
       previousBest = None, expanded = True\<rparr>,
      \<lparr>exercise_id = ''B'', exercise_name = ''Barbell Row'',
       sets = [\<lparr>sid = None, set_number = 1, weight = 0, reps = 0, rpe = None, logged = False\<rparr>,
               \<lparr>sid = Some ''s3'', set_number = 3, weight = 60, reps = 8, rpe = None,
                logged = True\<rparr>,
               \<lparr>sid = Some ''s4'', set_number = 2, weight = 60, reps = 10, rpe = None,
                logged = True\<rparr>],
       previousBest = None, expanded = False\<rparr>]"

text \<open>
  An outcome of the exercise search: one exercise that is in the scenario's view and one that
  is not.
\<close>

definition exampleSearch :: "string \<Rightarrow> api_error + Exercise list" where
  "exampleSearch q =
     Inr [\<lparr>ex_id = ''B'', ex_name = ''Bench Press'', muscle_group = ''Chest'',
           category = ''strength''\<rparr>,
          \<lparr>ex_id = ''P'', ex_name = ''Overhead Press'', muscle_group = ''Shoulders'',
           category = ''strength''\<rparr>]"




text \<open>
  A session without routine with the logged sets 12.1 for 9 reps (exercise A), 102.6 for 4
  reps and 102.5 for 8 reps (exercise B), the weights being the doubles nearest to these
  decimals, and the view \<open>loadWorkout\<close> builds for it.
\<close>

definition decimalWorkout :: WorkoutData where
  "decimalWorkout =
     \<lparr>w_id = ''w4'', start_time = ''2024-01-04T10:00:00Z'', end_time = None,
      status = ''in_progress'', routine_name = None,
      workout_sets =
        [\<lparr>ws_id = ''s8'', ws_exercise_id = ''A'', ws_set_number = 1,
          ws_weight = 6811694436397875 / 562949953421312, ws_reps = 9, ws_rpe = None,
          ws_exercises = None\<rparr>,
         \<lparr>ws_id = ''s9'', ws_exercise_id = ''B'', ws_set_number = 1,
          ws_weight = 3609916576314163 / 35184372088832, ws_reps = 4, ws_rpe = None,
          ws_exercises = None\<rparr>,
         \<lparr>ws_id = ''s10'', ws_exercise_id = ''B'', ws_set_number = 2,
          ws_weight = 205 / 2, ws_reps = 8, ws_rpe = None, ws_exercises = None\<rparr>]\<rparr>"

definition decimalView :: "ExerciseData list" where
  "decimalView =
     [\<lparr>exercise_id = ''A'', exercise_name = ''Unknown'',
       sets = [\<lparr>sid = Some ''s8'', set_number = 1, weight = 6811694436397875 / 562949953421312,
                reps = 9, rpe = None, logged = True\<rparr>],
       previousBest = None, expanded = False\<rparr>,
      \<lparr>exercise_id = ''B'', exercise_name = ''Unknown'',
       sets = [\<lparr>sid = Some ''s9'', set_number = 1, weight = 3609916576314163 / 35184372088832,
                reps = 4, rpe = None, logged = True\<rparr>,
               \<lparr>sid = Some ''s10'', set_number = 2, weight = 205 / 2,
                reps = 8, rpe = None, logged = True\<rparr>],
       previousBest = None, expanded = False\<rparr>]"



section \<open>Lemmas on the ordered map and on \<open>findIndex\<close>\<close>

lemma mapSet_pred:
  "\<forall>p\<in>set m. Q p \<Longrightarrow> Q (k, v) \<Longrightarrow> \<forall>p\<in>set (mapSet m k v). Q p"
  by (induction m) auto

lemma mapSet_keys:
  "map fst (mapSet m k v) = (if k \<in> set (map fst m) then map fst m else map fst m @ [k])"
  by (induction m) auto

lemma map_of_mapSet: "map_of (mapSet m k v) = (map_of m)(k \<mapsto> v)"
  by (induction m) (auto simp: fun_eq_iff)

lemma mapSet_twice: "mapSet (mapSet m k a) k b = mapSet m k b"
  by (induction m) auto

lemma findIndexFrom_none:
  "\<forall>x\<in>set xs. \<not> P x \<Longrightarrow> findIndexFrom P xs i = - 1"
  by (induction xs arbitrary: i) auto

lemma findIndexFrom_some:
  "\<exists>x\<in>set xs. P x \<Longrightarrow>
   findIndexFrom P xs i = i + int (length (takeWhile (\<lambda>x. \<not> P x) xs))"
proof (induction xs arbitrary: i)
  case Nil
  then show ?case by simp
next
  case (Cons a xs)
  show ?case
  proof (cases "P a")
    case True
    then show ?thesis by simp
  next
    case False
    with Cons.prems have "\<exists>x\<in>set xs. P x" by auto
    from Cons.IH[OF this, of "i + 1"] False show ?thesis by simp
  qed
qed

lemma takeWhile_not_lt: "\<exists>x\<in>set xs. P x \<Longrightarrow> length (takeWhile (\<lambda>x. \<not> P x) xs) < length xs"
  by (induction xs) auto

lemma findIndex_ge0_iff: "findIndex P xs \<ge> 0 \<longleftrightarrow> (\<exists>x\<in>set xs. P x)"
proof (cases "\<exists>x\<in>set xs. P x")
  case True
  then show ?thesis by (simp add: findIndex_def findIndexFrom_some)
next
  case False
  then show ?thesis by (simp add: findIndex_def findIndexFrom_none)
qed

lemma findIndex_found:
  assumes "\<exists>x\<in>set xs. P x"
  shows "nat (findIndex P xs) = length (takeWhile (\<lambda>x. \<not> P x) xs)"
    and "nat (findIndex P xs) < length xs"
    and "P (xs ! nat (findIndex P xs))"
proof -
  show eq: "nat (findIndex P xs) = length (takeWhile (\<lambda>x. \<not> P x) xs)"
    using assms by (simp add: findIndex_def findIndexFrom_some)
  show lt: "nat (findIndex P xs) < length xs"
    unfolding eq using assms by (rule takeWhile_not_lt)
  show "P (xs ! nat (findIndex P xs))"
    unfolding eq using assms nth_length_takeWhile[of "\<lambda>x. \<not> P x" xs] lt[unfolded eq] by blast
qed

lemma overlaySet_eq:
  "overlaySet m s =
     mapSet m (ws_exercise_id s) ((entryFor m s)\<lparr>sets := upsertSet (sets (entryFor m s)) s\<rparr>)"
proof (cases "map_of m (ws_exercise_id s)")
  case None
  then show ?thesis
    by (simp add: overlaySet_def mapGet_def entryFor_def freshExercise_def upsertSet_def
        findIndex_def mapSet_twice Let_def)
next
  case (Some e)
  show ?thesis
  proof (cases "\<exists>x\<in>set (sets e). set_number x = ws_set_number s")
    case True
    from findIndex_found(1)[OF True] findIndex_ge0_iff[of "\<lambda>x. set_number x = ws_set_number s" "sets e"] True
    show ?thesis using Some
      by (simp add: overlaySet_def mapGet_def entryFor_def upsertSet_def Let_def)
  next
    case False
    with findIndex_ge0_iff[of "\<lambda>x. set_number x = ws_set_number s" "sets e"]
    show ?thesis using Some
      by (simp add: overlaySet_def mapGet_def entryFor_def upsertSet_def Let_def)
  qed
qed

lemma entryFor_cases:
  "entryFor m s \<in> snd ` set m \<or> (entryFor m s = freshExercise s \<and> ws_exercise_id s \<notin> fst ` set m)"
  by (auto simp: entryFor_def map_of_eq_None_iff split: option.splits dest!: map_of_SomeD intro: rev_image_eqI)

section \<open>The expanded exercise\<close>

text \<open>Every entry of the map is collapsed until the expansion loop runs.\<close>

lemma overlaySet_pred:
  assumes "\<forall>p\<in>set m. P (snd p)" and "P (freshExercise s)"
    and "\<And>e ss. P e \<Longrightarrow> P (e\<lparr>sets := ss\<rparr>)"
  shows "\<forall>p\<in>set (overlaySet m s). P (snd p)"
proof -
  have "P (entryFor m s)"
    using entryFor_cases[of m s] assms(1,2) by auto
  then have "P ((entryFor m s)\<lparr>sets := upsertSet (sets (entryFor m s)) s\<rparr>)"
    by (rule assms(3))
  then show ?thesis
    unfolding overlaySet_eq by (intro mapSet_pred assms(1)) simp
qed

lemma overlaySets_pred:
  assumes "\<forall>p\<in>set m. P (snd p)" and "\<And>s. P (freshExercise s)"
    and "\<And>e ss. P e \<Longrightarrow> P (e\<lparr>sets := ss\<rparr>)"
  shows "\<forall>p\<in>set (overlaySets m ss). P (snd p)"
  using assms(1)
proof (induction ss arbitrary: m)
  case Nil
  then show ?case by simp
next
  case (Cons s ss)
  show ?case
    unfolding overlaySets.simps
    by (rule Cons.IH, rule overlaySet_pred[OF Cons.prems assms(2) assms(3)])
qed

lemma seedRoutine_untouched:
  "\<forall>p\<in>set m. untouched (snd p) \<Longrightarrow> \<forall>p\<in>set (seedRoutine m exs). untouched (snd p)"
proof (induction exs arbitrary: m)
  case Nil
  then show ?case by simp
next
  case (Cons ex exs)
  show ?case
    unfolding seedRoutine.simps
    by (rule Cons.IH, rule mapSet_pred[OF Cons.prems]) (simp add: untouched_def)
qed

lemma seedMap_untouched:
  "seedMap data lr = Inr m0 \<Longrightarrow> \<forall>p\<in>set m0. untouched (snd p)"
  using seedRoutine_untouched[of "[]"]
  by (auto simp: seedMap_def split: option.splits if_splits sum.splits)

lemma overlaySets_untouched:
  "\<forall>p\<in>set m. untouched (snd p) \<Longrightarrow> \<forall>p\<in>set (overlaySets m ss). untouched (snd p)"
  by (rule overlaySets_pred) (simp_all add: untouched_def freshExercise_def)

lemma list_all_logged_sort: "list_all logged (sort_key set_number ss) = list_all logged ss"
  by (simp add: list_all_iff)

lemma sortAndExpand_length: "length (sortAndExpand xs) = length xs"
  by (induction xs) (auto simp: Let_def)

lemma sortAndExpand_expanded:
  assumes "\<forall>e\<in>set xs. \<not> expanded e" and "i < length xs"
  shows "expanded (sortAndExpand xs ! i) \<longleftrightarrow>
           (\<not> list_all logged (sets (sortAndExpand xs ! i)) \<and>
            (\<forall>j<i. list_all logged (sets (sortAndExpand xs ! j))))"
  using assms
proof (induction xs arbitrary: i)
  case Nil
  then show ?case by simp
next
  case (Cons ex rest)
  show ?case
  proof (cases "list_all logged (sets ex)")
    case False
    show ?thesis
    proof (cases i)
      case 0
      with False show ?thesis by (simp add: Let_def list_all_logged_sort)
    next
      case (Suc k)
      with Cons.prems have "\<not> expanded (rest ! k)" by simp
      moreover have "\<not> list_all logged (sets (sortAndExpand (ex # rest) ! 0))"
        using False by (simp add: Let_def list_all_logged_sort)
      ultimately show ?thesis using False Suc
        by (auto simp: Let_def list_all_logged_sort)
    qed
  next
    case True
    show ?thesis
    proof (cases i)
      case 0
      with True Cons.prems show ?thesis by (simp add: Let_def list_all_logged_sort)
    next
      case (Suc k)
      with Cons.prems have k: "k < length rest" and r: "\<forall>e\<in>set rest. \<not> expanded e" by simp_all
      have "(\<forall>j<Suc k. list_all logged (sets (sortAndExpand (ex # rest) ! j))) \<longleftrightarrow>
            (\<forall>j<k. list_all logged (sets (sortAndExpand rest ! j)))"
        using True by (auto simp: Let_def list_all_logged_sort less_Suc_eq_0_disj)
      with Cons.IH[OF r k] True Suc show ?thesis
        by (simp add: Let_def list_all_logged_sort)
    qed
  qed
qed

lemma fetchPreviousBest_fields:
  "sets (fetchPreviousBest h ex) = sets ex"
  "expanded (fetchPreviousBest h ex) = expanded ex"
  "exercise_id (fetchPreviousBest h ex) = exercise_id ex"
  "exercise_name (fetchPreviousBest h ex) = exercise_name ex"
  by (simp_all add: fetchPreviousBest_def split: sum.splits option.splits)

lemma loadWorkout_expanded:
  assumes "loadWorkout gw lr hist = Inr view" and "i < length view"
  shows "expanded (view ! i) \<longleftrightarrow>
           (\<not> list_all logged (sets (view ! i)) \<and> (\<forall>j<i. list_all logged (sets (view ! j))))"
proof -
  from assms(1) obtain data m0 where gw: "gw = Inr data" and m0: "seedMap data lr = Inr m0"
    and view: "view = map (fetchPreviousBest hist)
                 (sortAndExpand (mapValues (overlaySets m0 (workout_sets data))))"
    by (auto simp: loadWorkout_def Let_def split: sum.splits)
  define arr where "arr = mapValues (overlaySets m0 (workout_sets data))"
  have coll: "\<forall>e\<in>set arr. \<not> expanded e"
    using overlaySets_untouched[OF seedMap_untouched[OF m0], of "workout_sets data"]
    by (auto simp: arr_def mapValues_def untouched_def)
  have len: "i < length arr" using assms(2) by (simp add: view arr_def sortAndExpand_length)
  have nth: "\<And>j. j \<le> i \<Longrightarrow> view ! j = fetchPreviousBest hist (sortAndExpand arr ! j)"
    using len by (simp add: view arr_def sortAndExpand_length)
  from sortAndExpand_expanded[OF coll len] show ?thesis
    by (simp add: nth fetchPreviousBest_fields)
qed

subsection \<open>The scenario\<close>

lemma scenario_seed:
  "seedMap scenarioWorkout (Inr [scenarioRoutine]) =
     Inr [(''A'', \<lparr>exercise_id = ''A'', exercise_name = ''Squat'', sets = placeholderSets 3,
                  previousBest = None, expanded = False\<rparr>),
          (''B'', \<lparr>exercise_id = ''B'', exercise_name = ''Bench Press'', sets = placeholderSets 2,
                  previousBest = None, expanded = False\<rparr>)]"
  by (simp add: seedMap_def scenarioWorkout_def scenarioRoutine_def)

lemma placeholderSets_3:
  "placeholderSets 3 =
     [\<lparr>sid = None, set_number = 1, weight = 0, reps = 0, rpe = None, logged = False\<rparr>,
      \<lparr>sid = None, set_number = 2, weight = 0, reps = 0, rpe = None, logged = False\<rparr>,
      \<lparr>sid = None, set_number = 3, weight = 0, reps = 0, rpe = None, logged = False\<rparr>]"
  by (simp add: placeholderSets_def upt_rec)

lemma placeholderSets_2:
  "placeholderSets 2 =
     [\<lparr>sid = None, set_number = 1, weight = 0, reps = 0, rpe = None, logged = False\<rparr>,
      \<lparr>sid = None, set_number = 2, weight = 0, reps = 0, rpe = None, logged = False\<rparr>]"
  by (simp add: placeholderSets_def upt_rec)

lemma scenario_load:
  "loadWorkout (Inr scenarioWorkout) (Inr [scenarioRoutine]) hist =
     Inr (map (fetchPreviousBest hist) scenarioView)"
proof -
  have "sortAndExpand (mapValues (overlaySets
          [(''A'', \<lparr>exercise_id = ''A'', exercise_name = ''Squat'', sets = placeholderSets 3,
                  previousBest = None, expanded = False\<rparr>),
           (''B'', \<lparr>exercise_id = ''B'', exercise_name = ''Bench Press'',
                  sets = placeholderSets 2, previousBest = None, expanded = False\<rparr>)]
          (workout_sets scenarioWorkout))) = scenarioView"
    by (simp add: placeholderSets_3 placeholderSets_2 scenarioWorkout_def overlaySet_def
        mapGet_def findIndex_def loggedEntry_def mapValues_def sort_key_def scenarioView_def
        Let_def)
  then show ?thesis
    by (simp add: loadWorkout_def scenario_seed)
qed

text \<open>
  Claim C1.  In the view that \<open>loadWorkout\<close> builds, an exercise is expanded exactly when
  it is the first one, in the order of the map, whose sets are not all logged; so no exercise
  is expanded when every exercise is fully logged.  In the scenario (exercise A with 3 target
  sets and none logged, exercise B with 2 target sets and both logged) A is expanded, B is
  collapsed, and the completion counts are 0/3 and 2/2, whatever the history reads return.
\<close>

theorem C1_first_incomplete_expanded:
  "(loadWorkout gw lr hist = Inr view \<longrightarrow>
      (\<forall>i<length view.
         expanded (view ! i) \<longleftrightarrow>
           (\<not> list_all logged (sets (view ! i)) \<and>
            (\<forall>j<i. list_all logged (sets (view ! j)))))) \<and>
   (\<exists>a b. loadWorkout (Inr scenarioWorkout) (Inr [scenarioRoutine]) hist = Inr [a, b] \<and>
      exercise_id a = ''A'' \<and> exercise_id b = ''B'' \<and> expanded a \<and> \<not> expanded b \<and>
      completionCount a = (0, 3) \<and> completionCount b = (2, 2))"
proof (intro conjI impI allI)
  fix i assume "loadWorkout gw lr hist = Inr view" and "i < length view"
  then show "expanded (view ! i) \<longleftrightarrow>
           (\<not> list_all logged (sets (view ! i)) \<and> (\<forall>j<i. list_all logged (sets (view ! j))))"
    by (rule loadWorkout_expanded)
next
  show "\<exists>a b. loadWorkout (Inr scenarioWorkout) (Inr [scenarioRoutine]) hist = Inr [a, b] \<and>
      exercise_id a = ''A'' \<and> exercise_id b = ''B'' \<and> expanded a \<and> \<not> expanded b \<and>
      completionCount a = (0, 3) \<and> completionCount b = (2, 2)"
    by (simp add: scenario_load scenarioView_def completionCount_def fetchPreviousBest_fields)
qed

theorem C1_first_incomplete_expanded_witness:
  "loadWorkout (Inr scenarioWorkout) (Inr [scenarioRoutine]) (\<lambda>_. Inr []) = Inr scenarioView \<and>
   length scenarioView = 2 \<and>
   expanded (scenarioView ! 0) \<and> \<not> list_all logged (sets (scenarioView ! 0)) \<and>
   \<not> expanded (scenarioView ! 1) \<and> list_all logged (sets (scenarioView ! 1))"
proof -
  have h: "loadWorkout (Inr scenarioWorkout) (Inr [scenarioRoutine]) (\<lambda>_. Inr []) = Inr scenarioView"
    by (simp add: scenario_load scenarioView_def fetchPreviousBest_def bestOf_def)
  have len: "length scenarioView = 2"
    by (simp add: scenarioView_def)
  have ix: "(0::nat) < 2" "(1::nat) < 2" by simp_all
  have a: "\<not> list_all logged (sets (scenarioView ! 0))"
    and b: "list_all logged (sets (scenarioView ! 1))"
    by (simp_all add: scenarioView_def)
  from C1_first_incomplete_expanded[of "Inr scenarioWorkout" "Inr [scenarioRoutine]"
      "\<lambda>_. Inr []" scenarioView] h
  have all: "\<forall>i<length scenarioView.
      expanded (scenarioView ! i) \<longleftrightarrow>
        (\<not> list_all logged (sets (scenarioView ! i)) \<and>
         (\<forall>j<i. list_all logged (sets (scenarioView ! j))))"
    by blast
  from all len ix(1) a have e0: "expanded (scenarioView ! 0)" by simp
  from all len ix(2) b have e1: "\<not> expanded (scenarioView ! 1)" by simp
  from h len e0 a e1 b show ?thesis by blast
qed

section \<open>Seeding from the routine\<close>








section \<open>The overlay of the persisted sets and the sorting\<close>

text \<open>
  What the overlay does to the map: the entry of the set's exercise is written, all other
  entries stay; a new exercise is appended behind the existing keys.  In the set list, the
  first entry with the same set number is replaced by the persisted set, marked logged, and
  when there is none the persisted set is appended.
\<close>

lemma overlaySet_lookup:
  "map_of (overlaySet m s) =
     (map_of m)(ws_exercise_id s \<mapsto>
        (entryFor m s)\<lparr>sets := upsertSet (sets (entryFor m s)) s\<rparr>)"
  by (simp add: overlaySet_eq map_of_mapSet)

lemma overlaySet_keys:
  "map fst (overlaySet m s) =
     (if ws_exercise_id s \<in> set (map fst m) then map fst m else map fst m @ [ws_exercise_id s])"
  by (simp add: overlaySet_eq mapSet_keys)

lemma upsertSet_replace:
  assumes "i < length ss" and "set_number (ss ! i) = ws_set_number s"
    and "\<forall>j<i. set_number (ss ! j) \<noteq> ws_set_number s"
  shows "upsertSet ss s = ss[i := loggedEntry s]"
proof -
  from assms(1,2) have ex: "\<exists>x\<in>set ss. set_number x = ws_set_number s"
    by (metis nth_mem)
  let ?k = "length (takeWhile (\<lambda>x. set_number x \<noteq> ws_set_number s) ss)"
  have lt: "?k < length ss"
    using takeWhile_not_lt[of ss "\<lambda>x. set_number x = ws_set_number s"] ex by simp
  have hit: "set_number (ss ! ?k) = ws_set_number s"
    using nth_length_takeWhile[OF lt] by simp
  have "\<not> ?k < i" using assms(3) hit by blast
  moreover have "\<not> i < ?k"
  proof
    assume "i < ?k"
    then have "set_number (ss ! i) \<noteq> ws_set_number s"
      using nth_mem[of i "takeWhile (\<lambda>x. set_number x \<noteq> ws_set_number s) ss"]
      by (metis (mono_tags, lifting) set_takeWhileD takeWhile_nth)
    with assms(2) show False by simp
  qed
  ultimately have "?k = i" by simp
  with ex show ?thesis by (simp add: upsertSet_def)
qed

lemma upsertSet_append:
  "\<forall>x\<in>set ss. set_number x \<noteq> ws_set_number s \<Longrightarrow> upsertSet ss s = ss @ [loggedEntry s]"
  by (auto simp: upsertSet_def)

text \<open>
  The sorting reaches an exercise when all exercises before it are fully logged.
\<close>

lemma sortAndExpand_sorted_prefix:
  assumes "i < length xs" and "\<forall>j<i. list_all logged (sets (xs ! j))"
  shows "sets (sortAndExpand xs ! i) = sort_key set_number (sets (xs ! i))"
  using assms
proof (induction xs arbitrary: i)
  case Nil
  then show ?case by simp
next
  case (Cons ex rest)
  show ?case
  proof (cases i)
    case 0
    then show ?thesis by (simp add: Let_def)
  next
    case (Suc k)
    with Cons.prems have k: "k < length rest" and all: "\<forall>j<k. list_all logged (sets (rest ! j))"
      and first: "list_all logged (sets ex)"
      by auto
    from Cons.IH[OF k all] first Suc show ?thesis
      by (simp add: Let_def list_all_logged_sort)
  qed
qed

lemma scenario2_load:
  "loadWorkout (Inr scenario2Workout) (Inr [scenario2Routine]) hist =
     Inr (map (fetchPreviousBest hist) scenario2View)"
proof -
  have seed: "seedMap scenario2Workout (Inr [scenario2Routine]) =
     Inr [(''A'', \<lparr>exercise_id = ''A'', exercise_name = ''Deadlift'', sets = placeholderSets 1,
                  previousBest = None, expanded = False\<rparr>),
          (''B'', \<lparr>exercise_id = ''B'', exercise_name = ''Barbell Row'', sets = placeholderSets 1,
                  previousBest = None, expanded = False\<rparr>)]"
    by (simp add: seedMap_def scenario2Workout_def scenario2Routine_def)
  have ph: "placeholderSets 1 =
     [\<lparr>sid = None, set_number = 1, weight = 0, reps = 0, rpe = None, logged = False\<rparr>]"
    by (simp add: placeholderSets_def)
  have "sortAndExpand (mapValues (overlaySets
          [(''A'', \<lparr>exercise_id = ''A'', exercise_name = ''Deadlift'', sets = placeholderSets 1,
                  previousBest = None, expanded = False\<rparr>),
           (''B'', \<lparr>exercise_id = ''B'', exercise_name = ''Barbell Row'',
                  sets = placeholderSets 1, previousBest = None, expanded = False\<rparr>)]
          (workout_sets scenario2Workout))) = scenario2View"
    by (simp add: ph scenario2Workout_def overlaySet_def mapGet_def findIndex_def loggedEntry_def
        mapValues_def sort_key_def scenario2View_def Let_def)
  then show ?thesis
    by (simp add: loadWorkout_def seed)
qed

text \<open>
  Claim C3.  The overlay replaces or appends as claimed (lemmas \<open>overlaySet_lookup\<close>,
  \<open>upsertSet_replace\<close>, \<open>upsertSet_append\<close>), but the sets are not sorted in every
  exercise: the loop that sorts is left at the first exercise that is not fully logged.  In
  the second scenario exercise A is expanded and the sets of exercise B, which comes after A,
  stay in the order 1, 3, 2.
\<close>

theorem C3_sets_behind_expanded_unsorted:
  "loadWorkout (Inr scenario2Workout) (Inr [scenario2Routine]) (\<lambda>_. Inr []) = Inr scenario2View \<and>
   map set_number (sets (scenario2View ! 1)) = [1, 3, 2] \<and>
   \<not> sorted (map set_number (sets (scenario2View ! 1)))"
  by (simp add: scenario2_load) (simp add: scenario2View_def fetchPreviousBest_def bestOf_def)

section \<open>The previous-best hint\<close>

lemma foldl_best:
  "\<exists>i<length (h0 # hs).
      foldl (\<lambda>mx s. if h_weight s > h_weight mx then s else mx) h0 hs = (h0 # hs) ! i \<and>
      (\<forall>j<length (h0 # hs). h_weight ((h0 # hs) ! j) \<le> h_weight ((h0 # hs) ! i)) \<and>
      (\<forall>j<i. h_weight ((h0 # hs) ! j) < h_weight ((h0 # hs) ! i))"
proof (induction hs rule: rev_induct)
  case Nil
  then show ?case by simp
next
  case (snoc x hs)
  let ?f = "\<lambda>mx s. if h_weight s > h_weight mx then s else mx"
  from snoc obtain i where i: "i < length (h0 # hs)"
    and eq: "foldl ?f h0 hs = (h0 # hs) ! i"
    and mx: "\<forall>j<length (h0 # hs). h_weight ((h0 # hs) ! j) \<le> h_weight ((h0 # hs) ! i)"
    and fst: "\<forall>j<i. h_weight ((h0 # hs) ! j) < h_weight ((h0 # hs) ! i)"
    by blast
  have nth_old: "\<And>j. j < length (h0 # hs) \<Longrightarrow> (h0 # hs @ [x]) ! j = (h0 # hs) ! j"
    by (metis append_Cons nth_append)
  have nth_new: "(h0 # hs @ [x]) ! length (h0 # hs) = x"
    by (metis append_Cons nth_append_length)
  show ?case
  proof (cases "h_weight x > h_weight ((h0 # hs) ! i)")
    case True
    have "foldl ?f h0 (hs @ [x]) = (h0 # hs @ [x]) ! length (h0 # hs)"
      using True eq nth_new by simp
    moreover have "\<forall>j<length (h0 # hs @ [x]). h_weight ((h0 # hs @ [x]) ! j) \<le> h_weight x"
    proof (intro allI impI)
      fix j assume "j < length (h0 # hs @ [x])"
      then consider "j < length (h0 # hs)" | "j = length (h0 # hs)" by fastforce
      then show "h_weight ((h0 # hs @ [x]) ! j) \<le> h_weight x"
      proof cases
        case 1
        with mx True nth_old[OF 1] show ?thesis by (metis less_le_not_le order_trans linorder_le_cases)
      next
        case 2
        then show ?thesis using nth_new by simp
      qed
    qed
    moreover have "\<forall>j<length (h0 # hs). h_weight ((h0 # hs @ [x]) ! j) < h_weight x"
    proof (intro allI impI)
      fix j assume j: "j < length (h0 # hs)"
      with mx have "h_weight ((h0 # hs) ! j) \<le> h_weight ((h0 # hs) ! i)" by blast
      with True nth_old[OF j] show "h_weight ((h0 # hs @ [x]) ! j) < h_weight x" by simp
    qed
    ultimately show ?thesis
      using nth_new by (intro exI[of _ "length (h0 # hs)"]) simp
  next
    case False
    have "foldl ?f h0 (hs @ [x]) = (h0 # hs @ [x]) ! i"
      using False eq nth_old[OF i] by simp
    moreover have "\<forall>j<length (h0 # hs @ [x]). h_weight ((h0 # hs @ [x]) ! j) \<le> h_weight ((h0 # hs @ [x]) ! i)"
    proof (intro allI impI)
      fix j assume "j < length (h0 # hs @ [x])"
      then consider "j < length (h0 # hs)" | "j = length (h0 # hs)" by fastforce
      then show "h_weight ((h0 # hs @ [x]) ! j) \<le> h_weight ((h0 # hs @ [x]) ! i)"
      proof cases
        case 1
        with mx nth_old[OF 1] nth_old[OF i] show ?thesis by simp
      next
        case 2
        then show ?thesis using nth_new nth_old[OF i] False by simp
      qed
    qed
    moreover have "\<forall>j<i. h_weight ((h0 # hs @ [x]) ! j) < h_weight ((h0 # hs @ [x]) ! i)"
    proof (intro allI impI)
      fix j assume j: "j < i"
      with i have "j < length (h0 # hs)" by simp
      from nth_old[OF this] nth_old[OF i] fst j show "h_weight ((h0 # hs @ [x]) ! j) < h_weight ((h0 # hs @ [x]) ! i)"
        by simp
    qed
    ultimately show ?thesis
      using i by (intro exI[of _ i]) simp
  qed
qed

lemma bestOf_Nil: "bestOf [] = None"
  by (simp add: bestOf_def)

lemma bestOf_max_first:
  assumes "history \<noteq> []"
  shows "\<exists>i<length history.
      bestOf history = Some \<lparr>best_weight = h_weight (history ! i), best_reps = h_reps (history ! i)\<rparr> \<and>
      (\<forall>j<length history. h_weight (history ! j) \<le> h_weight (history ! i)) \<and>
      (\<forall>j<i. h_weight (history ! j) < h_weight (history ! i))"
proof -
  from assms obtain h0 hs where h: "history = h0 # hs" by (cases history) auto
  from foldl_best[of h0 hs] obtain i where i: "i < length (h0 # hs)"
    and eq: "foldl (\<lambda>mx s. if h_weight s > h_weight mx then s else mx) h0 hs = (h0 # hs) ! i"
    and rest: "(\<forall>j<length (h0 # hs). h_weight ((h0 # hs) ! j) \<le> h_weight ((h0 # hs) ! i))"
         "(\<forall>j<i. h_weight ((h0 # hs) ! j) < h_weight ((h0 # hs) ! i))"
    by blast
  have "bestOf history = Some \<lparr>best_weight = h_weight (history ! i), best_reps = h_reps (history ! i)\<rparr>"
    unfolding h bestOf_def using eq by (simp add: Let_def)
  with i rest show ?thesis unfolding h by blast
qed

lemma sortAndExpand_previousBest:
  "\<forall>e\<in>set xs. previousBest e = None \<Longrightarrow> \<forall>e\<in>set (sortAndExpand xs). previousBest e = None"
  by (induction xs) (auto simp: Let_def)

lemma loadWorkout_base:
  assumes "loadWorkout gw lr hist = Inr view"
  shows "\<exists>base. (\<forall>e\<in>set base. previousBest e = None) \<and>
    (\<forall>hist'. loadWorkout gw lr hist' = Inr (map (fetchPreviousBest hist') base))"
proof -
  from assms obtain data m0 where gw: "gw = Inr data" and m0: "seedMap data lr = Inr m0"
    by (auto simp: loadWorkout_def Let_def split: sum.splits)
  define base where "base = sortAndExpand (mapValues (overlaySets m0 (workout_sets data)))"
  have "\<forall>e\<in>set (mapValues (overlaySets m0 (workout_sets data))). previousBest e = None"
    using overlaySets_untouched[OF seedMap_untouched[OF m0], of "workout_sets data"]
    by (auto simp: mapValues_def untouched_def)
  then have "\<forall>e\<in>set base. previousBest e = None"
    unfolding base_def by (rule sortAndExpand_previousBest)
  moreover have "\<forall>hist'. loadWorkout gw lr hist' = Inr (map (fetchPreviousBest hist') base)"
    by (simp add: loadWorkout_def gw m0 base_def)
  ultimately show ?thesis by blast
qed

lemma loadWorkout_error_independent:
  "loadWorkout gw lr hist = Inl e \<Longrightarrow> loadWorkout gw lr hist' = Inl e"
  by (auto simp: loadWorkout_def Let_def split: sum.splits)

lemma fetchPreviousBest_hint:
  "previousBest ex = None \<Longrightarrow>
   previousBest (fetchPreviousBest hist ex) =
     (case hist (exercise_id ex) of Inl _ \<Rightarrow> None | Inr h \<Rightarrow> bestOf h)"
  by (simp add: fetchPreviousBest_def split: sum.splits option.splits)

lemma clear_previousBest:
  "previousBest ex = None \<Longrightarrow> (fetchPreviousBest hist ex)\<lparr>previousBest := None\<rparr> = ex"
  by (cases ex) (simp add: fetchPreviousBest_def split: sum.splits option.splits)

lemma fetchPreviousBest_failed:
  "hist (exercise_id ex) = Inl err \<Longrightarrow> fetchPreviousBest hist ex = ex"
  by (simp add: fetchPreviousBest_def)

lemma fetchPreviousBest_cong:
  "hist (exercise_id ex) = hist' (exercise_id ex) \<Longrightarrow>
   fetchPreviousBest hist ex = fetchPreviousBest hist' ex"
  by (simp add: fetchPreviousBest_def)

lemma bestOf_example: "bestOf exampleHistory = Some \<lparr>best_weight = 120, best_reps = 3\<rparr>"
  by (simp add: bestOf_def exampleHistory_def)

lemma scenario_load_ok:
  "loadWorkout (Inr scenarioWorkout) (Inr [scenarioRoutine]) historyOk =
     Inr (map (\<lambda>e. e\<lparr>previousBest := Some \<lparr>best_weight = 120, best_reps = 3\<rparr>\<rparr>) scenarioView)"
  by (simp add: scenario_load scenarioView_def fetchPreviousBest_def historyOk_def bestOf_example)

lemma scenario_load_failA:
  "loadWorkout (Inr scenarioWorkout) (Inr [scenarioRoutine]) historyFailA =
     Inr [scenarioView ! 0,
          (scenarioView ! 1)\<lparr>previousBest := Some \<lparr>best_weight = 120, best_reps = 3\<rparr>\<rparr>]"
  by (simp add: scenario_load scenarioView_def fetchPreviousBest_def historyFailA_def bestOf_example)

text \<open>
  Claim C5.  The hint computed from a non-empty history is the weight and repetitions of an
  entry of maximum weight, and of the first such entry (every earlier entry is strictly
  lighter); an empty history gives no hint.  In the view built by \<open>loadWorkout\<close> every
  exercise carries the hint of its own history, and none when the read failed.
\<close>

theorem C5_previous_best:
  "bestOf [] = None \<and>
   (history \<noteq> [] \<longrightarrow>
      (\<exists>i<length history.
          bestOf history =
            Some \<lparr>best_weight = h_weight (history ! i), best_reps = h_reps (history ! i)\<rparr> \<and>
          (\<forall>j<length history. h_weight (history ! j) \<le> h_weight (history ! i)) \<and>
          (\<forall>j<i. h_weight (history ! j) < h_weight (history ! i)))) \<and>
   (loadWorkout gw lr hist = Inr view \<longrightarrow>
      (\<forall>e\<in>set view.
          previousBest e =
            (case hist (exercise_id e) of Inl _ \<Rightarrow> None | Inr h \<Rightarrow> bestOf h)))"
proof (intro conjI impI ballI)
  show "bestOf [] = None" by (rule bestOf_Nil)
next
  assume "history \<noteq> []"
  then show "\<exists>i<length history.
          bestOf history =
            Some \<lparr>best_weight = h_weight (history ! i), best_reps = h_reps (history ! i)\<rparr> \<and>
          (\<forall>j<length history. h_weight (history ! j) \<le> h_weight (history ! i)) \<and>
          (\<forall>j<i. h_weight (history ! j) < h_weight (history ! i))"
    by (rule bestOf_max_first)
next
  fix e assume lw: "loadWorkout gw lr hist = Inr view" and e: "e \<in> set view"
  from loadWorkout_base[OF lw] obtain base where none: "\<forall>e\<in>set base. previousBest e = None"
    and eq: "\<And>hist'. loadWorkout gw lr hist' = Inr (map (fetchPreviousBest hist') base)"
    by blast
  from lw eq[of hist] have "view = map (fetchPreviousBest hist) base" by simp
  with e obtain b where b: "b \<in> set base" and eb: "e = fetchPreviousBest hist b" by auto
  from none b have "previousBest b = None" by blast
  from fetchPreviousBest_hint[OF this, of hist] show "previousBest e =
            (case hist (exercise_id e) of Inl _ \<Rightarrow> None | Inr h \<Rightarrow> bestOf h)"
    by (simp add: eb fetchPreviousBest_fields)
qed

theorem C5_previous_best_witness:
  "exampleHistory \<noteq> [] \<and>
   bestOf exampleHistory = Some \<lparr>best_weight = 120, best_reps = 3\<rparr> \<and>
   (\<exists>i<length exampleHistory.
       bestOf exampleHistory =
         Some \<lparr>best_weight = h_weight (exampleHistory ! i),
               best_reps = h_reps (exampleHistory ! i)\<rparr> \<and>
       (\<forall>j<length exampleHistory. h_weight (exampleHistory ! j) \<le> h_weight (exampleHistory ! i)) \<and>
       (\<forall>j<i. h_weight (exampleHistory ! j) < h_weight (exampleHistory ! i))) \<and>
   loadWorkout (Inr scenarioWorkout) (Inr [scenarioRoutine]) historyFailA =
     Inr [scenarioView ! 0,
          (scenarioView ! 1)\<lparr>previousBest := Some \<lparr>best_weight = 120, best_reps = 3\<rparr>\<rparr>] \<and>
   previousBest (scenarioView ! 0) = None \<and>
   previousBest ((scenarioView ! 1)\<lparr>previousBest := Some \<lparr>best_weight = 120, best_reps = 3\<rparr>\<rparr>) =
     bestOf exampleHistory"
proof -
  have ne: "exampleHistory \<noteq> []" by (simp add: exampleHistory_def)
  note inst = C5_previous_best[of exampleHistory "Inr scenarioWorkout" "Inr [scenarioRoutine]"
      historyFailA "[scenarioView ! 0,
          (scenarioView ! 1)\<lparr>previousBest := Some \<lparr>best_weight = 120, best_reps = 3\<rparr>\<rparr>]"]
  from inst ne have ex: "\<exists>i<length exampleHistory.
       bestOf exampleHistory =
         Some \<lparr>best_weight = h_weight (exampleHistory ! i),
               best_reps = h_reps (exampleHistory ! i)\<rparr> \<and>
       (\<forall>j<length exampleHistory. h_weight (exampleHistory ! j) \<le> h_weight (exampleHistory ! i)) \<and>
       (\<forall>j<i. h_weight (exampleHistory ! j) < h_weight (exampleHistory ! i))"
    by blast
  from inst scenario_load_failA
  have hints: "\<forall>e\<in>set [scenarioView ! 0,
          (scenarioView ! 1)\<lparr>previousBest := Some \<lparr>best_weight = 120, best_reps = 3\<rparr>\<rparr>].
      previousBest e =
        (case historyFailA (exercise_id e) of Inl _ \<Rightarrow> None | Inr h \<Rightarrow> bestOf h)"
    by blast
  from hints have p0: "previousBest (scenarioView ! 0) = None"
    by (simp add: scenarioView_def historyFailA_def)
  from hints have p1: "previousBest ((scenarioView ! 1)\<lparr>previousBest := Some \<lparr>best_weight = 120, best_reps = 3\<rparr>\<rparr>) =
     bestOf exampleHistory"
    by (simp add: scenarioView_def historyFailA_def)
  from ne bestOf_example ex scenario_load_failA p0 p1 show ?thesis by blast
qed

text \<open>
  Claim C6.  Let the history read for exercise \<open>k\<close> fail, and compare with any run in which
  that read succeeds and all other reads are the same.  If the other run fails (the session
  or the routine list could not be read) this run fails with the same error; otherwise this
  run returns the same view, except that the entries of exercise \<open>k\<close> have no hint.  So the
  failed read raises no error and changes no other exercise.
\<close>

theorem C6_history_failure_isolated:
  assumes fail: "hist k = Inl err" and agree: "\<forall>k'. k' \<noteq> k \<longrightarrow> hist' k' = hist k'"
  shows "(case loadWorkout gw lr hist' of
            Inl e \<Rightarrow> loadWorkout gw lr hist = Inl e
          | Inr view' \<Rightarrow>
              loadWorkout gw lr hist =
                Inr (map (\<lambda>ex. if exercise_id ex = k then ex\<lparr>previousBest := None\<rparr> else ex)
                       view'))"
proof (cases "loadWorkout gw lr hist'")
  case (Inl e)
  then show ?thesis by (simp add: loadWorkout_error_independent[OF Inl])
next
  case (Inr view')
  from loadWorkout_base[OF Inr] obtain base where none: "\<forall>e\<in>set base. previousBest e = None"
    and eq: "\<And>h. loadWorkout gw lr h = Inr (map (fetchPreviousBest h) base)"
    by blast
  from Inr eq[of hist'] have v': "view' = map (fetchPreviousBest hist') base" by simp
  have "fetchPreviousBest hist b =
          (if exercise_id (fetchPreviousBest hist' b) = k
           then (fetchPreviousBest hist' b)\<lparr>previousBest := None\<rparr>
           else fetchPreviousBest hist' b)" if b: "b \<in> set base" for b
  proof (cases "exercise_id b = k")
    case True
    from none b have "previousBest b = None" by blast
    with True fail show ?thesis
      by (simp add: fetchPreviousBest_fields clear_previousBest fetchPreviousBest_failed)
  next
    case False
    with agree have "hist (exercise_id b) = hist' (exercise_id b)" by simp
    from fetchPreviousBest_cong[of hist b hist', OF this] False show ?thesis
      by (simp add: fetchPreviousBest_fields)
  qed
  then have "map (fetchPreviousBest hist) base =
     map (\<lambda>ex. if exercise_id ex = k then ex\<lparr>previousBest := None\<rparr> else ex) view'"
    by (simp add: v')
  with Inr eq[of hist] show ?thesis by simp
qed

theorem C6_history_failure_isolated_witness:
  "historyFailA ''A'' = Inl (ApiError ''HTTP 500'') \<and>
   loadWorkout (Inr scenarioWorkout) (Inr [scenarioRoutine]) historyOk =
     Inr (map (\<lambda>e. e\<lparr>previousBest := Some \<lparr>best_weight = 120, best_reps = 3\<rparr>\<rparr>) scenarioView) \<and>
   loadWorkout (Inr scenarioWorkout) (Inr [scenarioRoutine]) historyFailA =
     Inr (map (\<lambda>ex. if exercise_id ex = ''A'' then ex\<lparr>previousBest := None\<rparr> else ex)
            (map (\<lambda>e. e\<lparr>previousBest := Some \<lparr>best_weight = 120, best_reps = 3\<rparr>\<rparr>) scenarioView))"
proof -
  have fail: "historyFailA ''A'' = Inl (ApiError ''HTTP 500'')"
    by (simp add: historyFailA_def)
  have agree: "\<forall>k'. k' \<noteq> ''A'' \<longrightarrow> historyOk k' = historyFailA k'"
    by (simp add: historyFailA_def historyOk_def)
  from C6_history_failure_isolated[OF fail agree, of "Inr scenarioWorkout" "Inr [scenarioRoutine]"]
  have "loadWorkout (Inr scenarioWorkout) (Inr [scenarioRoutine]) historyFailA =
     Inr (map (\<lambda>ex. if exercise_id ex = ''A'' then ex\<lparr>previousBest := None\<rparr> else ex)
            (map (\<lambda>e. e\<lparr>previousBest := Some \<lparr>best_weight = 120, best_reps = 3\<rparr>\<rparr>) scenarioView))"
    by (simp add: scenario_load_ok)
  with fail scenario_load_ok show ?thesis by blast
qed

section \<open>Adding a set\<close>

lemma foldl_max_Max: "foldl max (a::int) xs = Max (insert a (set xs))"
proof (induction xs arbitrary: a)
  case Nil
  then show ?case by simp
next
  case (Cons x xs)
  have "Max (insert (max a x) (set xs)) = Max (insert a (insert x (set xs)))"
    by (cases "set xs = {}") (simp_all add: Max_insert max.assoc)
  with Cons show ?case by simp
qed

lemma maxSetNumber_Max:
  "maxSetNumber ss = Max (insert 0 (set_number ` set ss))"
  by (simp add: maxSetNumber_def foldl_max_Max)

lemma maxSetNumber_nonneg:
  assumes "\<exists>s\<in>set ss. 0 \<le> set_number s"
  shows "maxSetNumber ss = Max (set_number ` set ss)"
proof -
  from assms obtain s where s: "s \<in> set ss" "0 \<le> set_number s" by blast
  then have ne: "set_number ` set ss \<noteq> {}" by auto
  have "Max (insert 0 (set_number ` set ss)) = max 0 (Max (set_number ` set ss))"
    using ne by simp
  moreover have "set_number s \<le> Max (set_number ` set ss)"
    using s(1) by simp
  ultimately show ?thesis using s(2) by (simp add: maxSetNumber_Max)
qed

lemma nextSet_nonempty:
  "ss \<noteq> [] \<Longrightarrow> weight (nextSet ss) = weight (last ss) \<and> reps (nextSet ss) = reps (last ss)"
  by (cases ss rule: rev_cases) (simp_all add: nextSet_def)

lemma nextSet_eq:
  assumes "\<exists>s\<in>set ss. 0 \<le> set_number s"
  shows "nextSet ss = \<lparr>sid = None, set_number = Max (set_number ` set ss) + 1,
      weight = weight (last ss), reps = reps (last ss), rpe = None, logged = False\<rparr>"
proof -
  from assms have ne: "ss \<noteq> []" by auto
  from nextSet_nonempty[OF ne] maxSetNumber_nonneg[OF assms] show ?thesis
    by (simp add: nextSet_def)
qed

lemma nextSet_Nil:
  "nextSet [] = \<lparr>sid = None, set_number = 1, weight = 0, reps = 0, rpe = None, logged = False\<rparr>"
  by (simp add: nextSet_def maxSetNumber_def)

lemma maxSetNumber_upper: "s \<in> set ss \<Longrightarrow> set_number s \<le> maxSetNumber ss"
  by (simp add: maxSetNumber_Max)

lemma nextSet_fields: "sid (nextSet ss) = None" "rpe (nextSet ss) = None" "\<not> logged (nextSet ss)"
  by (simp_all add: nextSet_def)

lemma nextSet_above: "s \<in> set ss \<Longrightarrow> set_number s < set_number (nextSet ss)"
  using maxSetNumber_upper[of s ss] by (simp add: nextSet_def)

text \<open>
  Claim C7.  \<open>addSetToExercise\<close> keeps the number of exercises and leaves every exercise
  with another id as it is.  To the exercise with the given id it appends exactly one entry
  and keeps the existing entries.  The new entry is unlogged, has no id and no RPE, and its
  number is above every existing set number; it is the largest existing set number plus 1
  whenever some existing number is not negative, as all numbers the page produces are.  It
  carries the weight and repetitions of the last existing entry.  For an exercise without
  sets the new entry has number 1, weight 0 and 0 repetitions.
\<close>

theorem C7_add_set:
  assumes "i < length exs" and "exercise_id (exs ! i) = eid"
  shows "length (addSetToExercise eid exs) = length exs \<and>
     (\<forall>j<length exs. exercise_id (exs ! j) \<noteq> eid \<longrightarrow> addSetToExercise eid exs ! j = exs ! j) \<and>
     (\<exists>new.
        addSetToExercise eid exs ! i = (exs ! i)\<lparr>sets := sets (exs ! i) @ [new]\<rparr> \<and>
        \<not> logged new \<and> sid new = None \<and> rpe new = None \<and>
        (\<forall>s\<in>set (sets (exs ! i)). set_number s < set_number new) \<and>
        ((\<exists>s\<in>set (sets (exs ! i)). 0 \<le> set_number s) \<longrightarrow>
           set_number new = Max (set_number ` set (sets (exs ! i))) + 1) \<and>
        (sets (exs ! i) \<noteq> [] \<longrightarrow>
           weight new = weight (last (sets (exs ! i))) \<and>
           reps new = reps (last (sets (exs ! i)))) \<and>
        (sets (exs ! i) = [] \<longrightarrow> set_number new = 1 \<and> weight new = 0 \<and> reps new = 0))"
proof (intro conjI)
  show "length (addSetToExercise eid exs) = length exs"
    by (simp add: addSetToExercise_def)
  show "\<forall>j<length exs. exercise_id (exs ! j) \<noteq> eid \<longrightarrow> addSetToExercise eid exs ! j = exs ! j"
    by (simp add: addSetToExercise_def)
  let ?ss = "sets (exs ! i)"
  have "addSetToExercise eid exs ! i = (exs ! i)\<lparr>sets := ?ss @ [nextSet ?ss]\<rparr>"
    using assms by (simp add: addSetToExercise_def)
  moreover have "\<forall>s\<in>set ?ss. set_number s < set_number (nextSet ?ss)"
    by (simp add: nextSet_above)
  moreover have "(\<exists>s\<in>set ?ss. 0 \<le> set_number s) \<longrightarrow>
      set_number (nextSet ?ss) = Max (set_number ` set ?ss) + 1"
    by (simp add: nextSet_eq)
  moreover have "?ss \<noteq> [] \<longrightarrow>
      weight (nextSet ?ss) = weight (last ?ss) \<and> reps (nextSet ?ss) = reps (last ?ss)"
    by (simp add: nextSet_nonempty)
  moreover have "?ss = [] \<longrightarrow>
      set_number (nextSet ?ss) = 1 \<and> weight (nextSet ?ss) = 0 \<and> reps (nextSet ?ss) = 0"
    by (simp add: nextSet_Nil)
  ultimately show "\<exists>new.
        addSetToExercise eid exs ! i = (exs ! i)\<lparr>sets := sets (exs ! i) @ [new]\<rparr> \<and>
        \<not> logged new \<and> sid new = None \<and> rpe new = None \<and>
        (\<forall>s\<in>set (sets (exs ! i)). set_number s < set_number new) \<and>
        ((\<exists>s\<in>set (sets (exs ! i)). 0 \<le> set_number s) \<longrightarrow>
           set_number new = Max (set_number ` set (sets (exs ! i))) + 1) \<and>
        (sets (exs ! i) \<noteq> [] \<longrightarrow>
           weight new = weight (last (sets (exs ! i))) \<and>
           reps new = reps (last (sets (exs ! i)))) \<and>
        (sets (exs ! i) = [] \<longrightarrow> set_number new = 1 \<and> weight new = 0 \<and> reps new = 0)"
    using nextSet_fields[of ?ss] by (intro exI[of _ "nextSet ?ss"]) blast
qed

theorem C7_add_set_witness:
  "(1::nat) < length scenarioView \<and> exercise_id (scenarioView ! 1) = ''B'' \<and>
   (\<exists>s\<in>set (sets (scenarioView ! 1)). 0 \<le> set_number s) \<and>
   sets (scenarioView ! 1) \<noteq> [] \<and>
   Max (set_number ` set (sets (scenarioView ! 1))) + 1 = 3 \<and>
   weight (last (sets (scenarioView ! 1))) = 80 \<and> reps (last (sets (scenarioView ! 1))) = 12 \<and>
   length (addSetToExercise ''B'' scenarioView) = 2 \<and>
   addSetToExercise ''B'' scenarioView ! 0 = scenarioView ! 0 \<and>
   addSetToExercise ''B'' scenarioView ! 1 =
     (scenarioView ! 1)\<lparr>sets := sets (scenarioView ! 1) @
        [\<lparr>sid = None, set_number = 3, weight = 80, reps = 12, rpe = None, logged = False\<rparr>]\<rparr>"
proof -
  have i: "(1::nat) < length scenarioView" and id: "exercise_id (scenarioView ! 1) = ''B''"
    and nn: "\<exists>s\<in>set (sets (scenarioView ! 1)). 0 \<le> set_number s"
    and ne: "sets (scenarioView ! 1) \<noteq> []"
    and j: "(0::nat) < length scenarioView" "exercise_id (scenarioView ! 0) \<noteq> ''B''"
    and len: "length scenarioView = 2"
    by (simp_all add: scenarioView_def)
  have mx: "Max (set_number ` set (sets (scenarioView ! 1))) + 1 = 3"
    "weight (last (sets (scenarioView ! 1))) = 80" "reps (last (sets (scenarioView ! 1))) = 12"
    by (simp_all add: scenarioView_def)
  note inst = C7_add_set[OF i id]
  from inst len have l: "length (addSetToExercise ''B'' scenarioView) = 2" by simp
  from inst j have z: "addSetToExercise ''B'' scenarioView ! 0 = scenarioView ! 0" by blast
  from inst nn ne obtain new where
    a: "addSetToExercise ''B'' scenarioView ! 1 =
          (scenarioView ! 1)\<lparr>sets := sets (scenarioView ! 1) @ [new]\<rparr>"
    and f: "\<not> logged new" "sid new = None" "rpe new = None"
    and n: "set_number new = Max (set_number ` set (sets (scenarioView ! 1))) + 1"
    and w: "weight new = weight (last (sets (scenarioView ! 1)))"
       "reps new = reps (last (sets (scenarioView ! 1)))"
    by blast
  from f n w mx have "new = \<lparr>sid = None, set_number = 3, weight = 80, reps = 12, rpe = None,
      logged = False\<rparr>"
    by (cases new) simp
  with a have o: "addSetToExercise ''B'' scenarioView ! 1 =
     (scenarioView ! 1)\<lparr>sets := sets (scenarioView ! 1) @
        [\<lparr>sid = None, set_number = 3, weight = 80, reps = 12, rpe = None, logged = False\<rparr>]\<rparr>"
    by simp
  from i id nn ne mx l z o show ?thesis by blast
qed

section \<open>Saving a routine\<close>

lemma renumber_length: "length (renumber es) = length es"
  by (simp add: renumber_def)

lemma renumber_nth:
  "i < length es \<Longrightarrow>
   renumber es ! i =
     \<lparr>in_exercise_id = f_exercise_id (es ! i), in_order = int i,
      in_target_sets = f_target_sets (es ! i),
      in_target_reps_min = f_target_reps_min (es ! i),
      in_target_reps_max = f_target_reps_max (es ! i)\<rparr>"
  by (simp add: renumber_def nth_enumerate_eq)

lemma renumber_orders: "map in_order (renumber es) = map int [0 ..< length es]"
  by (rule nth_equalityI) (simp_all add: renumber_length renumber_nth)

lemma renumber_ignores_order:
  "renumber (map (\<lambda>e. e\<lparr>f_order := g e\<rparr>) es) = renumber es"
  by (rule nth_equalityI) (simp_all add: renumber_length renumber_nth)

text \<open>
  Claim C8.  \<open>handleSave\<close> sends nothing when the trimmed name is empty.  Otherwise it
  sends one request, a create or, when a routine is being edited, an update of that routine,
  whose exercise list has one entry per form entry, in the form's order, with the same
  exercise ids and targets and with \<open>order\<close> equal to the position 0, 1, ..., n - 1.  The
  order values held in the form do not influence the request, and neither does the exercise
  list stored with the routine being edited: an update carries the complete list.
\<close>

theorem C8_save_renumbers:
  "(trim (formName f) = [] \<longrightarrow> handleSave f = None) \<and>
   (trim (formName f) \<noteq> [] \<longrightarrow>
      (\<exists>d. handleSave f =
             Some (case editingRoutine f of
                     None \<Rightarrow> CreateRoutine d | Some r \<Rightarrow> UpdateRoutine (r_id r) d) \<and>
           in_name d = formName f \<and> in_schedule_day_index d = formDay f \<and>
           map in_order (in_exercises d) = map int [0 ..< length (formExercises f)] \<and>
           map in_exercise_id (in_exercises d) = map f_exercise_id (formExercises f) \<and>
           map in_target_sets (in_exercises d) = map f_target_sets (formExercises f) \<and>
           map in_target_reps_min (in_exercises d) = map f_target_reps_min (formExercises f) \<and>
           map in_target_reps_max (in_exercises d) = map f_target_reps_max (formExercises f))) \<and>
   handleSave (f\<lparr>formExercises := map (\<lambda>e. e\<lparr>f_order := g e\<rparr>) (formExercises f)\<rparr>) =
     handleSave f \<and>
   handleSave (f\<lparr>editingRoutine := Some (r\<lparr>exercises := stored\<rparr>)\<rparr>) =
     handleSave (f\<lparr>editingRoutine := Some r\<rparr>)"
proof (intro conjI impI)
  show "trim (formName f) = [] \<Longrightarrow> handleSave f = None"
    by (simp add: handleSave_def)
next
  assume ne: "trim (formName f) \<noteq> []"
  let ?d = "\<lparr>in_name = formName f, in_schedule_day_index = formDay f,
             in_exercises = renumber (formExercises f)\<rparr>"
  have "handleSave f =
             Some (case editingRoutine f of
                     None \<Rightarrow> CreateRoutine ?d | Some r \<Rightarrow> UpdateRoutine (r_id r) ?d)"
    using ne by (simp add: handleSave_def Let_def split: option.splits)
  moreover have "map in_exercise_id (renumber es) = map f_exercise_id es"
    "map in_target_sets (renumber es) = map f_target_sets es"
    "map in_target_reps_min (renumber es) = map f_target_reps_min es"
    "map in_target_reps_max (renumber es) = map f_target_reps_max es" for es
    by (rule nth_equalityI; simp add: renumber_length renumber_nth)+
  ultimately show "\<exists>d. handleSave f =
             Some (case editingRoutine f of
                     None \<Rightarrow> CreateRoutine d | Some r \<Rightarrow> UpdateRoutine (r_id r) d) \<and>
           in_name d = formName f \<and> in_schedule_day_index d = formDay f \<and>
           map in_order (in_exercises d) = map int [0 ..< length (formExercises f)] \<and>
           map in_exercise_id (in_exercises d) = map f_exercise_id (formExercises f) \<and>
           map in_target_sets (in_exercises d) = map f_target_sets (formExercises f) \<and>
           map in_target_reps_min (in_exercises d) = map f_target_reps_min (formExercises f) \<and>
           map in_target_reps_max (in_exercises d) = map f_target_reps_max (formExercises f)"
    by (intro exI[of _ ?d]) (simp add: renumber_orders)
next
  show "handleSave (f\<lparr>formExercises := map (\<lambda>e. e\<lparr>f_order := g e\<rparr>) (formExercises f)\<rparr>) =
     handleSave f"
    by (simp add: handleSave_def renumber_ignores_order)
next
  show "handleSave (f\<lparr>editingRoutine := Some (r\<lparr>exercises := stored\<rparr>)\<rparr>) =
     handleSave (f\<lparr>editingRoutine := Some r\<rparr>)"
    by (simp add: handleSave_def)
qed

theorem C8_save_renumbers_witness:
  "trim (formName exampleForm) \<noteq> [] \<and>
   handleSave exampleForm =
     Some (UpdateRoutine ''r1''
       \<lparr>in_name = ''Push Day'', in_schedule_day_index = 1,
        in_exercises =
          [\<lparr>in_exercise_id = ''B'', in_order = 0, in_target_sets = 2, in_target_reps_min = 8,
            in_target_reps_max = 12\<rparr>,
           \<lparr>in_exercise_id = ''A'', in_order = 1, in_target_sets = 3, in_target_reps_min = 8,
            in_target_reps_max = 12\<rparr>]\<rparr>) \<and>
   map in_order
     [\<lparr>in_exercise_id = ''B'', in_order = 0, in_target_sets = 2, in_target_reps_min = 8,
       in_target_reps_max = 12\<rparr>,
      \<lparr>in_exercise_id = ''A'', in_order = 1, in_target_sets = 3, in_target_reps_min = 8,
       in_target_reps_max = 12\<rparr>] = map int [0 ..< length (formExercises exampleForm)] \<and>
   trim (formName (exampleForm\<lparr>formName := ''  ''\<rparr>)) = [] \<and>
   handleSave (exampleForm\<lparr>formName := ''  ''\<rparr>) = None"
proof -
  have ne: "trim (formName exampleForm) \<noteq> []"
    by (simp add: exampleForm_def trim_def isWhiteSpace_def)
  have bl: "trim (formName (exampleForm\<lparr>formName := ''  ''\<rparr>)) = []"
    by (simp add: trim_def isWhiteSpace_def)
  have ed: "editingRoutine exampleForm = Some scenarioRoutine" "r_id scenarioRoutine = ''r1''"
    by (simp_all add: exampleForm_def scenarioRoutine_def)
  from C8_save_renumbers[of exampleForm] ne
  have "\<exists>d. handleSave exampleForm =
             Some (case editingRoutine exampleForm of
                     None \<Rightarrow> CreateRoutine d | Some r \<Rightarrow> UpdateRoutine (r_id r) d) \<and>
           map in_order (in_exercises d) = map int [0 ..< length (formExercises exampleForm)]"
    by blast
  then obtain d where d: "handleSave exampleForm = Some (UpdateRoutine ''r1'' d)"
    and ords: "map in_order (in_exercises d) = map int [0 ..< length (formExercises exampleForm)]"
    by (auto simp: ed)
  have hs: "handleSave exampleForm =
     Some (UpdateRoutine ''r1''
       \<lparr>in_name = ''Push Day'', in_schedule_day_index = 1,
        in_exercises =
          [\<lparr>in_exercise_id = ''B'', in_order = 0, in_target_sets = 2, in_target_reps_min = 8,
            in_target_reps_max = 12\<rparr>,
           \<lparr>in_exercise_id = ''A'', in_order = 1, in_target_sets = 3, in_target_reps_min = 8,
            in_target_reps_max = 12\<rparr>]\<rparr>)"
    using ne by (simp add: handleSave_def renumber_def exampleForm_def scenarioRoutine_def)
  from d hs have deq: "in_exercises d =
     [\<lparr>in_exercise_id = ''B'', in_order = 0, in_target_sets = 2, in_target_reps_min = 8,
       in_target_reps_max = 12\<rparr>,
      \<lparr>in_exercise_id = ''A'', in_order = 1, in_target_sets = 3, in_target_reps_min = 8,
       in_target_reps_max = 12\<rparr>]"
    by auto
  from ords have o: "map in_order
     [\<lparr>in_exercise_id = ''B'', in_order = 0, in_target_sets = 2, in_target_reps_min = 8,
       in_target_reps_max = 12\<rparr>,
      \<lparr>in_exercise_id = ''A'', in_order = 1, in_target_sets = 3, in_target_reps_min = 8,
       in_target_reps_max = 12\<rparr>] = map int [0 ..< length (formExercises exampleForm)]"
    unfolding deq .
  from C8_save_renumbers[of "exampleForm\<lparr>formName := ''  ''\<rparr>"] bl
  have none: "handleSave (exampleForm\<lparr>formName := ''  ''\<rparr>) = None" by blast
  from ne hs o bl none show ?thesis by blast
qed

section \<open>Logging a set\<close>

text \<open>
  Claim C9.  When the weight or the repetitions of the set are not strictly positive,
  \<open>handleLogSet\<close> issues no request and leaves the view unchanged, so the set stays
  unlogged.  When both are strictly positive it issues exactly one log-set request for the
  set.  Every request it issues carries a strictly positive weight and repetition count.
\<close>

theorem C9_log_guard:
  "(weight st \<le> 0 \<or> reps st \<le> 0 \<longrightarrow> handleLogSet wid logSet eid st exs = ([], exs)) \<and>
   (0 < weight st \<and> 0 < reps st \<longrightarrow>
      fst (handleLogSet wid logSet eid st exs) =
        [(wid, \<lparr>sl_exercise_id = eid, sl_set_number = set_number st,
                sl_weight = weight st, sl_reps = reps st\<rparr>)]) \<and>
   (\<forall>rq\<in>set (fst (handleLogSet wid logSet eid st exs)).
      0 < sl_weight (snd rq) \<and> 0 < sl_reps (snd rq))"
  by (auto simp: handleLogSet_def Let_def split: sum.splits)

theorem C9_log_guard_witness:
  "weight (sets (scenarioView ! 0) ! 0) \<le> 0 \<and>
   handleLogSet ''w1'' (\<lambda>_ _. Inr ()) ''A'' (sets (scenarioView ! 0) ! 0) scenarioView =
     ([], scenarioView) \<and>
   0 < weight ((sets (scenarioView ! 0) ! 0)\<lparr>weight := 60, reps := 5\<rparr>) \<and>
   0 < reps ((sets (scenarioView ! 0) ! 0)\<lparr>weight := 60, reps := 5\<rparr>) \<and>
   fst (handleLogSet ''w1'' (\<lambda>_ _. Inr ()) ''A''
          ((sets (scenarioView ! 0) ! 0)\<lparr>weight := 60, reps := 5\<rparr>) scenarioView) =
     [(''w1'', \<lparr>sl_exercise_id = ''A'', sl_set_number = 1, sl_weight = 60, sl_reps = 5\<rparr>)]"
proof -
  have z: "weight (sets (scenarioView ! 0) ! 0) \<le> 0"
    and p: "0 < weight ((sets (scenarioView ! 0) ! 0)\<lparr>weight := 60, reps := 5\<rparr>)"
       "0 < reps ((sets (scenarioView ! 0) ! 0)\<lparr>weight := 60, reps := 5\<rparr>)"
    and n: "set_number ((sets (scenarioView ! 0) ! 0)\<lparr>weight := 60, reps := 5\<rparr>) = 1"
    by (simp_all add: scenarioView_def)
  from C9_log_guard[of "sets (scenarioView ! 0) ! 0" "''w1''" "\<lambda>_ _. Inr ()" "''A''" scenarioView] z
  have a: "handleLogSet ''w1'' (\<lambda>_ _. Inr ()) ''A'' (sets (scenarioView ! 0) ! 0) scenarioView =
     ([], scenarioView)" by blast
  from C9_log_guard[of "(sets (scenarioView ! 0) ! 0)\<lparr>weight := 60, reps := 5\<rparr>" "''w1''"
      "\<lambda>_ _. Inr ()" "''A''" scenarioView] p n
  have b: "fst (handleLogSet ''w1'' (\<lambda>_ _. Inr ()) ''A''
          ((sets (scenarioView ! 0) ! 0)\<lparr>weight := 60, reps := 5\<rparr>) scenarioView) =
     [(''w1'', \<lparr>sl_exercise_id = ''A'', sl_set_number = 1, sl_weight = 60, sl_reps = 5\<rparr>)]"
    by simp
  from z a p b show ?thesis by blast
qed

section \<open>The invariant of the view\<close>

lemma mapInv_mapSet:
  assumes "mapInv m" and "exercise_id v = k" and "distinct (map set_number (sets v))"
  shows "mapInv (mapSet m k v)"
  unfolding mapInv_def
proof
  show "distinct (map fst (mapSet m k v))"
    using assms(1) by (simp add: mapSet_keys mapInv_def)
  show "\<forall>p\<in>set (mapSet m k v). exercise_id (snd p) = fst p \<and> distinct (map set_number (sets (snd p)))"
    by (rule mapSet_pred) (use assms in \<open>simp_all add: mapInv_def\<close>)
qed

lemma placeholderSets_numbers: "map set_number (placeholderSets n) = map (\<lambda>i. int i + 1) [0 ..< nat n]"
  by (simp add: placeholderSets_def comp_def)

lemma placeholderSets_distinct: "distinct (map set_number (placeholderSets n))"
  unfolding placeholderSets_numbers by (simp add: distinct_map inj_on_def)

lemma seedRoutine_mapInv: "mapInv m \<Longrightarrow> mapInv (seedRoutine m exs)"
proof (induction exs arbitrary: m)
  case Nil
  then show ?case by simp
next
  case (Cons ex exs)
  show ?case
    unfolding seedRoutine.simps
    by (rule Cons.IH, rule mapInv_mapSet[OF Cons.prems]) (simp_all add: placeholderSets_distinct)
qed

lemma seedMap_mapInv: "seedMap data lr = Inr m0 \<Longrightarrow> mapInv m0"
  using seedRoutine_mapInv[of "[]"]
  by (auto simp: seedMap_def mapInv_def split: option.splits if_splits sum.splits)

lemma upsertSet_numbers:
  "map set_number (upsertSet ss s) =
     (if \<exists>x\<in>set ss. set_number x = ws_set_number s then map set_number ss
      else map set_number ss @ [ws_set_number s])"
proof (cases "\<exists>x\<in>set ss. set_number x = ws_set_number s")
  case True
  let ?i = "length (takeWhile (\<lambda>x. set_number x \<noteq> ws_set_number s) ss)"
  from True have lt: "?i < length ss"
    using takeWhile_not_lt[of ss "\<lambda>x. set_number x = ws_set_number s"] by simp
  have hit: "set_number (ss ! ?i) = ws_set_number s"
    using nth_length_takeWhile[OF lt] by simp
  have "map set_number (ss[?i := loggedEntry s]) = (map set_number ss)[?i := ws_set_number s]"
    by (simp add: map_update loggedEntry_def)
  also have "\<dots> = map set_number ss"
    using hit lt by (metis list_update_id nth_map)
  finally show ?thesis using True by (simp add: upsertSet_def)
next
  case False
  then show ?thesis by (simp add: upsertSet_def loggedEntry_def)
qed

lemma upsertSet_distinct:
  "distinct (map set_number ss) \<Longrightarrow> distinct (map set_number (upsertSet ss s))"
  by (auto simp: upsertSet_numbers)

lemma entryFor_mapInv:
  assumes "mapInv m"
  shows "exercise_id (entryFor m s) = ws_exercise_id s"
    and "distinct (map set_number (sets (entryFor m s)))"
proof -
  show "exercise_id (entryFor m s) = ws_exercise_id s"
  proof (cases "map_of m (ws_exercise_id s)")
    case None
    then show ?thesis by (simp add: entryFor_def freshExercise_def)
  next
    case (Some e)
    then have "(ws_exercise_id s, e) \<in> set m" by (rule map_of_SomeD)
    with assms Some show ?thesis by (force simp: entryFor_def mapInv_def)
  qed
  show "distinct (map set_number (sets (entryFor m s)))"
    using entryFor_cases[of m s] assms by (auto simp: mapInv_def freshExercise_def)
qed

lemma overlaySet_mapInv: "mapInv m \<Longrightarrow> mapInv (overlaySet m s)"
  unfolding overlaySet_eq
  by (rule mapInv_mapSet) (simp_all add: entryFor_mapInv upsertSet_distinct)

lemma overlaySets_mapInv: "mapInv m \<Longrightarrow> mapInv (overlaySets m ss)"
  by (induction ss arbitrary: m) (simp_all add: overlaySet_mapInv)

lemma mapValues_viewInv: "mapInv m \<Longrightarrow> viewInv (mapValues m)"
proof -
  assume inv: "mapInv m"
  then have "map exercise_id (map snd m) = map fst m"
    by (simp add: mapInv_def)
  with inv have "distinct (map exercise_id (map snd m))"
    by (simp only: mapInv_def)
  moreover from inv have "\<forall>e\<in>set (map snd m). distinct (map set_number (sets e))"
    by (auto simp: mapInv_def)
  ultimately show ?thesis by (simp only: viewInv_def mapValues_def)
qed

lemma insort_key_numbers:
  "distinct (map f (insort_key f x xs)) \<longleftrightarrow> f x \<notin> f ` set xs \<and> distinct (map f xs)"
  by (induction xs) (auto simp: set_insort_key)

lemma sort_key_distinct_map: "distinct (map f (sort_key f xs)) \<longleftrightarrow> distinct (map f xs)"
  by (induction xs) (simp_all add: sort_key_simps insort_key_numbers)

lemma sortAndExpand_ids: "map exercise_id (sortAndExpand xs) = map exercise_id xs"
  by (induction xs) (simp_all add: Let_def)

lemma sortAndExpand_sets_distinct:
  "\<forall>e\<in>set xs. distinct (map set_number (sets e)) \<Longrightarrow>
   \<forall>e\<in>set (sortAndExpand xs). distinct (map set_number (sets e))"
  by (induction xs) (auto simp: Let_def sort_key_distinct_map)

lemma sortAndExpand_viewInv: "viewInv xs \<Longrightarrow> viewInv (sortAndExpand xs)"
  using sortAndExpand_sets_distinct[of xs] by (simp add: viewInv_def sortAndExpand_ids)

lemma map_viewInv:
  assumes "viewInv xs" and "\<And>e. exercise_id (g e) = exercise_id e"
    and "\<And>e. e \<in> set xs \<Longrightarrow> distinct (map set_number (sets e)) \<Longrightarrow> distinct (map set_number (sets (g e)))"
  shows "viewInv (map g xs)"
proof -
  have "map exercise_id (map g xs) = map exercise_id xs"
    by (simp add: assms(2))
  with assms(1) have "distinct (map exercise_id (map g xs))"
    by (simp only: viewInv_def)
  moreover from assms(1,3) have "\<forall>e\<in>set (map g xs). distinct (map set_number (sets e))"
    by (auto simp: viewInv_def)
  ultimately show ?thesis by (simp only: viewInv_def)
qed

lemma loadWorkout_viewInv:
  assumes "loadWorkout gw lr hist = Inr view"
  shows "viewInv view"
proof -
  from assms obtain data m0 where m0: "seedMap data lr = Inr m0"
    and view: "view = map (fetchPreviousBest hist)
                 (sortAndExpand (mapValues (overlaySets m0 (workout_sets data))))"
    by (auto simp: loadWorkout_def Let_def split: sum.splits)
  have "viewInv (sortAndExpand (mapValues (overlaySets m0 (workout_sets data))))"
    by (intro sortAndExpand_viewInv mapValues_viewInv overlaySets_mapInv seedMap_mapInv[OF m0])
  then show ?thesis
    unfolding view by (rule map_viewInv) (simp_all add: fetchPreviousBest_fields)
qed

lemma nextSet_number_new: "set_number (nextSet ss) \<notin> set_number ` set ss"
proof
  assume "set_number (nextSet ss) \<in> set_number ` set ss"
  then obtain s where "s \<in> set ss" and "set_number s = maxSetNumber ss + 1"
    by (auto simp: nextSet_def)
  with maxSetNumber_upper[of s ss] show False by simp
qed

lemma addSetToExercise_viewInv: "viewInv exs \<Longrightarrow> viewInv (addSetToExercise eid exs)"
  unfolding addSetToExercise_def
  by (rule map_viewInv) (use nextSet_number_new in auto)

lemma updateSet_viewInv:
  assumes "viewInv exs"
  shows "viewInv (updateSet eid n fld v exs)"
proof -
  have eq: "map set_number (map (\<lambda>s. if set_number s = n
                                then (case fld of Weight \<Rightarrow> s\<lparr>weight := v\<rparr> | Reps \<Rightarrow> s\<lparr>reps := v\<rparr>)
                                else s) ss) = map set_number ss" for ss
    by (induction ss) (auto split: set_field.splits)
  show ?thesis
    unfolding updateSet_def using assms
    by (rule map_viewInv) (simp_all add: eq del: map_map)
qed

lemma handleLogSet_viewInv: "viewInv exs \<Longrightarrow> viewInv (snd (handleLogSet wid logSet eid st exs))"
proof -
  have eq: "map set_number (map (\<lambda>s. if set_number s = n then s\<lparr>logged := True\<rparr> else s) ss)
          = map set_number ss" for ss n
    by (induction ss) auto
  assume inv: "viewInv exs"
  have "viewInv (map (\<lambda>ex. if exercise_id ex \<noteq> eid then ex
                           else ex\<lparr>sets :=
                                  map (\<lambda>s. if set_number s = set_number st
                                            then s\<lparr>logged := True\<rparr> else s) (sets ex)\<rparr>) exs)"
    using inv by (rule map_viewInv) (simp_all add: eq del: map_map)
  with inv show ?thesis
    by (simp add: handleLogSet_def Let_def split: sum.splits)
qed

lemma toggleExercise_viewInv: "viewInv exs \<Longrightarrow> viewInv (toggleExercise eid exs)"
  unfolding toggleExercise_def by (rule map_viewInv) simp_all

lemma addExercise_viewInv:
  assumes "viewInv exs" and "ex \<in> set (handleSearch q search exs)"
  shows "viewInv (addExercise ex exs)"
proof -
  from assms(2) have "ex_id ex \<notin> set (map exercise_id exs)"
    by (auto simp: handleSearch_def Let_def split: if_splits sum.splits)
  with assms(1) show ?thesis
    by (simp add: addExercise_def viewInv_def)
qed

text \<open>
  Claim C10.  The view that \<open>loadWorkout\<close> builds has pairwise distinct exercise ids and,
  within each exercise, pairwise distinct set numbers.  The invariant is kept by adding an
  exercise taken from the search results computed for the current view, by adding a set, by
  updating a set, by logging a set (whether the request succeeds or not) and by toggling an
  exercise.
\<close>

theorem C10_view_invariant:
  "(loadWorkout gw lr hist = Inr view \<longrightarrow> viewInv view) \<and>
   (viewInv exs \<longrightarrow>
      (\<forall>ex\<in>set (handleSearch q search exs). viewInv (addExercise ex exs)) \<and>
      viewInv (addSetToExercise eid exs) \<and>
      viewInv (updateSet eid n fld v exs) \<and>
      viewInv (snd (handleLogSet wid logSet eid st exs)) \<and>
      viewInv (toggleExercise eid exs))"
proof (intro conjI impI ballI)
  show "loadWorkout gw lr hist = Inr view \<Longrightarrow> viewInv view"
    by (rule loadWorkout_viewInv)
next
  fix ex assume "viewInv exs" and "ex \<in> set (handleSearch q search exs)"
  then show "viewInv (addExercise ex exs)" by (rule addExercise_viewInv)
next
  show "viewInv exs \<Longrightarrow> viewInv (addSetToExercise eid exs)"
    by (rule addSetToExercise_viewInv)
next
  show "viewInv exs \<Longrightarrow> viewInv (updateSet eid n fld v exs)"
    by (rule updateSet_viewInv)
next
  show "viewInv exs \<Longrightarrow> viewInv (snd (handleLogSet wid logSet eid st exs))"
    by (rule handleLogSet_viewInv)
next
  show "viewInv exs \<Longrightarrow> viewInv (toggleExercise eid exs)"
    by (rule toggleExercise_viewInv)
qed

theorem C10_view_invariant_witness:
  "loadWorkout (Inr scenarioWorkout) (Inr [scenarioRoutine]) (\<lambda>_. Inr []) = Inr scenarioView \<and>
   viewInv scenarioView \<and>
   handleSearch ''press'' exampleSearch scenarioView =
     [\<lparr>ex_id = ''P'', ex_name = ''Overhead Press'', muscle_group = ''Shoulders'',
       category = ''strength''\<rparr>] \<and>
   viewInv (addExercise \<lparr>ex_id = ''P'', ex_name = ''Overhead Press'', muscle_group = ''Shoulders'',
                         category = ''strength''\<rparr> scenarioView) \<and>
   viewInv (addSetToExercise ''A'' scenarioView) \<and>
   viewInv (updateSet ''A'' 1 Weight 60 scenarioView) \<and>
   viewInv (snd (handleLogSet ''w1'' (\<lambda>_ _. Inr ()) ''A''
                  \<lparr>sid = None, set_number = 1, weight = 60, reps = 5, rpe = None, logged = False\<rparr>
                  scenarioView)) \<and>
   viewInv (toggleExercise ''B'' scenarioView)"
proof -
  let ?p = "\<lparr>ex_id = ''P'', ex_name = ''Overhead Press'', muscle_group = ''Shoulders'',
             category = ''strength''\<rparr>"
  let ?st = "\<lparr>sid = None, set_number = 1, weight = 60, reps = 5, rpe = None, logged = False\<rparr>"
  have h: "loadWorkout (Inr scenarioWorkout) (Inr [scenarioRoutine]) (\<lambda>_. Inr []) = Inr scenarioView"
    by (simp add: scenario_load scenarioView_def fetchPreviousBest_def bestOf_def)
  have hs: "handleSearch ''press'' exampleSearch scenarioView = [?p]"
    by (simp add: handleSearch_def exampleSearch_def scenarioView_def)
  then have mem: "?p \<in> set (handleSearch ''press'' exampleSearch scenarioView)" by simp
  note inst = C10_view_invariant[of "Inr scenarioWorkout" "Inr [scenarioRoutine]" "\<lambda>_. Inr []"
      scenarioView scenarioView "''press''" exampleSearch]
  from inst h have inv: "viewInv scenarioView" by blast
  from inst[of "''A''" 1 Weight 60 "''w1''" "\<lambda>_ _. Inr ()" ?st] inv mem
  have a: "viewInv (addExercise ?p scenarioView)"
    and b: "viewInv (addSetToExercise ''A'' scenarioView)"
    and c: "viewInv (updateSet ''A'' 1 Weight 60 scenarioView)"
    and d: "viewInv (snd (handleLogSet ''w1'' (\<lambda>_ _. Inr ()) ''A'' ?st scenarioView))"
    by blast+
  from inst[of "''B''"] inv have e: "viewInv (toggleExercise ''B'' scenarioView)" by blast
  from h inv hs a b c d e show ?thesis by blast
qed


section \<open>The displayed total volume\<close>

subsection \<open>Rounding is the identity on doubles\<close>






subsection \<open>Sums of products without rounding\<close>























subsection \<open>The logged entries of the view\<close>

















subsection \<open>The examples\<close>






text \<open>
  The two pages add the same products in different groupings, and the roundings differ: for
  the session with the decimals the detail page shows 1339.3 and the workout page
  1339.3000000000002.
\<close>

lemma decimal_weights:
  "map ws_weight (workout_sets decimalWorkout) =
     [roundDouble (121 / 10), roundDouble (1026 / 10), roundDouble (1025 / 10)]"
  by code_simp

lemma decimal_load:
  "loadWorkout (Inr decimalWorkout) (Inr []) (\<lambda>_. Inr []) = Inr decimalView"
  by (simp add: loadWorkout_def seedMap_def decimalWorkout_def overlaySet_def mapGet_def
        findIndex_def loggedEntry_def joinedName_def mapValues_def sort_key_def
        decimalView_def fetchPreviousBest_def bestOf_def Let_def)

lemma decimal_detail:
  "totalVolume_detail (workout_sets decimalWorkout) = 5890303692321587 / 4398046511104"
  by code_simp

lemma decimal_page: "totalVolume decimalView = 1472575923080397 / 1099511627776"
  by code_simp

lemma pages_disagree:
  "distinct (map setKey (workout_sets decimalWorkout)) \<and>
   loadWorkout (Inr decimalWorkout) (Inr []) (\<lambda>_. Inr []) = Inr decimalView \<and>
   totalVolume_detail (workout_sets decimalWorkout) \<noteq> totalVolume decimalView"
  by (simp add: decimal_load decimal_detail decimal_page) (simp add: decimalWorkout_def setKey_def)




end
